theory Spec2Isabelle
  imports Complex_Main "HOL-Library.AList" "HOL-Library.Sublist"
begin

section \<open>Chat server with an exchange-rate command: a model of \<open>src/server/main.py\<close>\<close>

text \<open>
  The development follows the source file top to bottom: the constants, the
  \<open>DataFetcher\<close> class (tracked currencies, upstream request, cache file,
  \<open>get_exchanges\<close>) and the \<open>Server\<close> class (registry, broadcast, command dispatch).

  Conventions of the model.
  \<^item> A Python \<open>str\<close> is a \<^typ>\<open>string\<close>; a character stands for the code point of the
    same number (U+0000 to U+00FF).
  \<^item> An exception is a value of \<open>py_error\<close>; a function that can raise returns
    \<open>py_error + 'a\<close>, with \<open>Inl\<close> for the exception.
  \<^item> The attributes of the \<open>Server\<close> and of its \<open>DataFetcher\<close>, the cache file and the
    exchange log live in one record \<open>state\<close> that every operation takes and returns.
    Two fields are observers that the source does not have: \<open>requests\<close> lists the URLs
    asked of the upstream provider, \<open>sent\<close> lists the messages handed to
    \<open>ws.send\<close>, both in order.
  \<^item> What the program reads from outside is the record \<open>env\<close>: the upstream provider, the
    clock, and the template \<open>table.jinja\<close>, which is not part of the source file.
  \<^item> Every registered connection is open, so \<open>ws.send\<close> completes; closing of
    connections is not modelled.
  \<^item> The handling of one line runs without another task in between, with one
    exception: the delivery of a chat line, where the connections that register during
    its awaits are an argument of the model.
\<close>

subsection \<open>Exceptions and JSON values\<close>

text \<open>
  The exceptions that the program names or that its own operations raise, and
  \<open>OtherException\<close> for an exception of any other class, by the name of that class.
\<close>

datatype py_error =
    HttpError "string list"
  | JSONDecodeError
  | ContentTypeError
  | KeyError string
  | TypeError
  | AttributeError
  | ValueError
  | OverflowError
  | RuntimeError
  | OtherException string

text \<open>
  A Python \<open>float\<close>: a finite one, by its exact value, or one of \<open>inf\<close>, \<open>-inf\<close> and
  \<open>nan\<close>. The value of a finite \<open>float\<close> is a rational number; what is proved below
  of \<open>Finite r\<close> holds for every rational \<open>r\<close>, and so for every \<open>float\<close>.
\<close>

datatype pyfloat = Finite rat | PosInf | NegInf | NaN

text \<open>
  What \<open>json.load\<close> and \<open>response.json()\<close> return. A number without fraction or exponent
  is an \<open>int\<close>, of any size; any other number is a \<open>float\<close> (the decoder also takes
  \<open>NaN\<close> and \<open>Infinity\<close>, and turns a number beyond the range of \<open>float\<close> into \<open>inf\<close>).
  A \<open>dict\<close> is the list of its items in insertion order, its keys distinct.
\<close>

datatype json =
    JNull
  | JBool bool
  | JInt int
  | JFloat pyfloat
  | JStr string
  | JList "json list"
  | JDict "(string \<times> json) list"

subsection \<open>Text\<close>

text \<open>\<open>', '.join(xs)\<close>\<close>

fun join :: "string \<Rightarrow> string list \<Rightarrow> string" where
  "join sep [] = []"
| "join sep [x] = x"
| "join sep (x # y # ys) = x @ sep @ join sep (y # ys)"

definition digit_char :: "nat \<Rightarrow> char" where
  "digit_char n = char_of (48 + n)"

text \<open>\<open>str(n)\<close> for a natural number.\<close>

fun str_nat :: "nat \<Rightarrow> string" where
  "str_nat n = (if n < 10 then [digit_char n] else str_nat (n div 10) @ [digit_char (n mod 10)])"

declare str_nat.simps [simp del]

text \<open>Zero padding to two and to four digits, as \<open>%d\<close>, \<open>%m\<close> and \<open>%Y\<close> of \<open>strftime\<close> do.\<close>

definition pad2 :: "nat \<Rightarrow> string" where
  "pad2 n = (if n < 10 then CHR ''0'' # str_nat n else str_nat n)"

definition pad4 :: "nat \<Rightarrow> string" where
  "pad4 n = replicate (4 - length (str_nat n)) CHR ''0'' @ str_nat n"

text \<open>
  The character classes of \<open>str.split\<close>, \<open>str.isdigit\<close>, \<open>str.lower\<close> and \<open>str.upper\<close>
  on the code points up to U+00FF. \<open>isdigit\<close> accepts the superscript digits
  U+00B2, U+00B3 and U+00B9 besides \<open>0\<close> to \<open>9\<close>; \<open>int\<close> accepts only \<open>0\<close> to \<open>9\<close>.
\<close>

definition isspace :: "char \<Rightarrow> bool" where
  "isspace c = ((of_char c :: nat) \<in> {9, 10, 11, 12, 13, 28, 29, 30, 31, 32, 133, 160})"

definition is_decimal :: "char \<Rightarrow> bool" where
  "is_decimal c = (48 \<le> (of_char c :: nat) \<and> (of_char c :: nat) \<le> 57)"

definition is_digit :: "char \<Rightarrow> bool" where
  "is_digit c = (is_decimal c \<or> (of_char c :: nat) \<in> {178, 179, 185})"

definition py_isdigit :: "string \<Rightarrow> bool" where
  "py_isdigit s = (s \<noteq> [] \<and> list_all is_digit s)"

text \<open>
  \<open>int(s)\<close> for a string that passed \<open>isdigit\<close>: no sign, no blank, no underscore. (A
  recent interpreter also refuses a string of more than 4300 digits; the statements
  below that depend on it keep to shorter tokens.)
\<close>

definition decimal_value :: "string \<Rightarrow> int" where
  "decimal_value s = foldl (\<lambda>acc c. 10 * acc + (of_char c - 48)) 0 s"

definition py_int :: "string \<Rightarrow> py_error + int" where
  "py_int s = (if s \<noteq> [] \<and> list_all is_decimal s then Inr (decimal_value s) else Inl ValueError)"

definition lower_char :: "char \<Rightarrow> char" where
  "lower_char c =
     (let n = (of_char c :: nat)
      in if (65 \<le> n \<and> n \<le> 90) \<or> (192 \<le> n \<and> n \<le> 222 \<and> n \<noteq> 215) then char_of (n + 32) else c)"

definition py_lower :: "string \<Rightarrow> string" where
  "py_lower s = map lower_char s"

text \<open>
  \<open>str.upper\<close>: the sharp s (U+00DF) becomes \<open>SS\<close>. The capitals of U+00B5 and U+00FF lie
  beyond U+00FF; these two letters are kept as they are here, and no statement below
  is about them.
\<close>

definition upper_char :: "char \<Rightarrow> string" where
  "upper_char c =
     (let n = (of_char c :: nat)
      in if (97 \<le> n \<and> n \<le> 122) \<or> (224 \<le> n \<and> n \<le> 254 \<and> n \<noteq> 247) then [char_of (n - 32)]
         else if n = 223 then ''SS'' else [c])"

definition py_upper :: "string \<Rightarrow> string" where
  "py_upper s = concat (map upper_char s)"

text \<open>\<open>s.split()\<close>: the maximal runs of non-blank characters; \<open>w\<close> is the run being read.\<close>

fun split_ws :: "string \<Rightarrow> string \<Rightarrow> string list" where
  "split_ws w [] = (if w = [] then [] else [w])"
| "split_ws w (c # cs) =
     (if isspace c then (if w = [] then split_ws [] cs else w # split_ws [] cs)
      else split_ws (w @ [c]) cs)"

definition py_split :: "string \<Rightarrow> string list" where
  "py_split s = split_ws [] s"

subsection \<open>Constants\<close>

definition BASE_URL :: string where
  "BASE_URL = ''https://api.privatbank.ua/p24api/exchange_rates?date=''"

definition ALL_CURRENCIES :: "string set" where
  "ALL_CURRENCIES =
     {''SEK'', ''DKK'', ''GEL'', ''CZK'', ''TRY'', ''KZT'', ''ILS'', ''AZN'', ''JPY'',
      ''CAD'', ''BYN'', ''UAH'', ''NOK'', ''USD'', ''CHF'', ''CNY'', ''MDL'', ''HUF'',
      ''XAU'', ''EUR'', ''SGD'', ''PLN'', ''UZS'', ''TMT'', ''AUD'', ''GBP''}"

subsection \<open>State and environment\<close>

text \<open>A connection: \<open>ws.name\<close> and \<open>str(ws.remote_address)\<close>, with a number for its identity.\<close>

record session =
  sid :: nat
  name :: string
  remote_address :: string

text \<open>
  The file \<open>cache.json\<close>: missing, present with text that \<open>json.load\<close> rejects, or
  present with the text of a JSON value.
\<close>

datatype cache_file = Absent | Garbled | Holds json

record state =
  currencies :: "string list"
  cache_file :: cache_file
  requests :: "string list"
  clients :: "session list"
  sent :: "(session \<times> string) list"
  log_exchange :: "string list"

text \<open>A calendar date, as \<open>datetime\<close> holds it.\<close>

record date =
  year :: nat
  month :: nat
  day :: nat

text \<open>
  What one \<open>session.get(url)\<close> and the reading of its response come to: a response with
  its status and body; one of the two \<open>aiohttp\<close> exceptions that \<open>request\<close> handles, with
  its text; or an exception of another class, by the name of the class
  (\<open>ServerDisconnectedError\<close>, \<open>ClientOSError\<close>, \<open>TimeoutError\<close>, \<open>ClientPayloadError\<close>
  and the like), which \<open>request\<close> does not handle.
\<close>

datatype body = JsonBody json | OtherBody

datatype reply =
    Response nat body
  | ClientConnectorError string
  | InvalidURL string
  | OtherFailure string

text \<open>A row of the table: the \<open>dict\<close> with the keys \<open>buy\<close>, \<open>sell\<close> and \<open>NBU\<close>.\<close>

record rate_row =
  buy :: string
  sell :: string
  NBU :: string

type_synonym rates = "(string \<times> rate_row) list"

text \<open>
  What the program reads from outside: the provider (it answers one URL the same way
  whenever it is asked), the date of \<open>datetime.now()\<close> and its text in the log, and the
  rendering of the template.
\<close>

record env =
  upstream :: "string \<Rightarrow> reply"
  today :: date
  now :: string
  render :: "string list \<Rightarrow> (string \<times> rates) list \<Rightarrow> string"

subsection \<open>\<open>DataFetcher\<close>: the tracked currencies\<close>

text \<open>\<open>DataFetcher.__init__\<close> and \<open>Server.__init__\<close>.\<close>

definition init :: "cache_file \<Rightarrow> state" where
  "init f = \<lparr>currencies = [''USD'', ''EUR''], cache_file = f, requests = [], clients = [],
             sent = [], log_exchange = []\<rparr>"

definition current_currencies :: "state \<Rightarrow> string" where
  "current_currencies s = '' Current currencies: '' @ join '', '' (currencies s)"

definition add_currency :: "string \<Rightarrow> state \<Rightarrow> string \<times> state" where
  "add_currency currency s =
     (if currency \<in> ALL_CURRENCIES then
        if currency \<notin> set (currencies s) then
          (let s' = s\<lparr>currencies := currencies s @ [currency]\<rparr>
           in (currency @ '' was added.'' @ current_currencies s', s'))
        else (currency @ '' is already in the list.'' @ current_currencies s, s)
      else (''There is no such currency.'' @ current_currencies s, s))"

definition remove_currency :: "string \<Rightarrow> state \<Rightarrow> string \<times> state" where
  "remove_currency currency s =
     (if currency \<in> set (currencies s) then
        (let s' = s\<lparr>currencies := remove1 currency (currencies s)\<rparr>
         in (currency @ '' was removed.'' @ current_currencies s', s'))
      else (currency @ '' is not in the list.'' @ current_currencies s, s))"

subsection \<open>\<open>DataFetcher\<close>: the upstream request and the cache file\<close>

text \<open>
  \<open>request\<close>: status 200 gives the decoded body (\<open>response.json()\<close> raises
  \<open>ContentTypeError\<close> when the body is not JSON); any other status and the two handled
  \<open>aiohttp\<close> exceptions give \<open>HttpError\<close>; an exception of another class passes through.
\<close>

definition request_result :: "env \<Rightarrow> string \<Rightarrow> py_error + json" where
  "request_result e url =
     (case upstream e url of
        Response status b \<Rightarrow>
          if status = 200 then (case b of JsonBody j \<Rightarrow> Inr j | OtherBody \<Rightarrow> Inl ContentTypeError)
          else Inl (HttpError [''Error status: '' @ str_nat status @ '' for '' @ url])
      | ClientConnectorError err \<Rightarrow> Inl (HttpError [''Connection error: '' @ url, err])
      | InvalidURL err \<Rightarrow> Inl (HttpError [''Connection error: '' @ url, err])
      | OtherFailure cls \<Rightarrow> Inl (OtherException cls))"

definition request :: "env \<Rightarrow> string \<Rightarrow> state \<Rightarrow> (py_error + json) \<times> state" where
  "request e url s = (request_result e url, s\<lparr>requests := requests s @ [url]\<rparr>)"

definition load_json_sync :: "state \<Rightarrow> py_error + json" where
  "load_json_sync s =
     (case cache_file s of Absent \<Rightarrow> Inr (JDict []) | Garbled \<Rightarrow> Inl JSONDecodeError | Holds j \<Rightarrow> Inr j)"

definition dump_json_sync :: "json \<Rightarrow> state \<Rightarrow> state" where
  "dump_json_sync data s = s\<lparr>cache_file := Holds data\<rparr>"

subsection \<open>Python's operations on a JSON value\<close>

text \<open>\<open>needle in hay\<close> for two strings.\<close>

fun str_contains :: "string \<Rightarrow> string \<Rightarrow> bool" where
  "str_contains needle [] = (needle = [])"
| "str_contains needle (c # cs) = (prefix needle (c # cs) \<or> str_contains needle cs)"

text \<open>\<open>key in v\<close>\<close>

definition contains :: "json \<Rightarrow> string \<Rightarrow> py_error + bool" where
  "contains v key =
     (case v of
        JDict kvs \<Rightarrow> Inr (key \<in> fst ` set kvs)
      | JList xs \<Rightarrow> Inr (JStr key \<in> set xs)
      | JStr t \<Rightarrow> Inr (str_contains key t)
      | _ \<Rightarrow> Inl TypeError)"

text \<open>\<open>v[key]\<close>\<close>

definition getitem :: "json \<Rightarrow> string \<Rightarrow> py_error + json" where
  "getitem v key =
     (case v of
        JDict kvs \<Rightarrow> (case map_of kvs key of None \<Rightarrow> Inl (KeyError key) | Some x \<Rightarrow> Inr x)
      | _ \<Rightarrow> Inl TypeError)"

text \<open>\<open>v[key] = x\<close>\<close>

definition setitem :: "json \<Rightarrow> string \<Rightarrow> json \<Rightarrow> py_error + json" where
  "setitem v key x =
     (case v of JDict kvs \<Rightarrow> Inr (JDict (AList.update key x kvs)) | _ \<Rightarrow> Inl TypeError)"

text \<open>\<open>v.get(key)\<close>\<close>

definition dict_get :: "json \<Rightarrow> string \<Rightarrow> py_error + json" where
  "dict_get v key =
     (case v of
        JDict kvs \<Rightarrow> Inr (case map_of kvs key of None \<Rightarrow> JNull | Some x \<Rightarrow> x)
      | _ \<Rightarrow> Inl AttributeError)"

text \<open>The items that \<open>for x in v\<close> visits.\<close>

definition iterate :: "json \<Rightarrow> py_error + json list" where
  "iterate v =
     (case v of
        JList xs \<Rightarrow> Inr xs
      | JDict kvs \<Rightarrow> Inr (map (\<lambda>kv. JStr (fst kv)) kvs)
      | JStr t \<Rightarrow> Inr (map (\<lambda>c. JStr [c]) t)
      | _ \<Rightarrow> Inl TypeError)"

text \<open>The truth value of \<open>v\<close> in a condition.\<close>

definition truthy :: "json \<Rightarrow> bool" where
  "truthy v =
     (case v of
        JNull \<Rightarrow> False
      | JBool b \<Rightarrow> b
      | JInt n \<Rightarrow> n \<noteq> 0
      | JFloat f \<Rightarrow> (case f of Finite r \<Rightarrow> r \<noteq> 0 | _ \<Rightarrow> True)
      | JStr t \<Rightarrow> t \<noteq> []
      | JList xs \<Rightarrow> xs \<noteq> []
      | JDict kvs \<Rightarrow> kvs \<noteq> [])"

text \<open>\<open>n.bit_length()\<close>\<close>

function bit_length :: "int \<Rightarrow> nat" where
  "bit_length n = (if n \<le> 0 then 0 else Suc (bit_length (n div 2)))"
  by auto

termination
  by (relation "measure nat") auto

declare bit_length.simps [simp del]

text \<open>
  \<open>float(n)\<close> for an \<open>int\<close>, which the format \<open>f\<close> applies first: the nearest number
  with 53 significant bits, a tie going to the even one; \<open>OverflowError\<close> when that number
  is beyond the largest \<open>float\<close>.
\<close>

definition float_of_int :: "int \<Rightarrow> py_error + rat" where
  "float_of_int n =
     (let m = \<bar>n\<bar>; k = bit_length m
      in if k \<le> 53 then Inr (of_int n)
         else
           (let sh = k - 53; q = m div 2 ^ sh; rest = m mod 2 ^ sh; half = 2 ^ (sh - 1);
                q' = (if half < rest \<or> (rest = half \<and> odd q) then q + 1 else q);
                v = q' * 2 ^ sh
            in if 2 ^ 1024 \<le> v then Inl OverflowError
               else Inr (of_int (if n < 0 then - v else v))))"

text \<open>
  \<open>f'{x:0.2f}'\<close> for a finite \<open>float\<close>: the number rounded to the nearest multiple of
  1/100, a tie going to the even one, written with its sign, its integer digits, a point
  and two digits.
\<close>

definition round_half_even :: "rat \<Rightarrow> int" where
  "round_half_even x =
     (let f = \<lfloor>x\<rfloor>; d = x - of_int f
      in if d < 1 / 2 then f else if 1 / 2 < d then f + 1 else if even f then f else f + 1)"

definition format_2f_num :: "rat \<Rightarrow> string" where
  "format_2f_num r =
     (let n = nat (round_half_even (\<bar>r\<bar> * 100))
      in (if r < 0 then ''-'' else []) @ str_nat (n div 100) @ ''.'' @ pad2 (n mod 100))"

definition format_2f_float :: "pyfloat \<Rightarrow> string" where
  "format_2f_float f =
     (case f of
        Finite r \<Rightarrow> format_2f_num r
      | PosInf \<Rightarrow> ''inf''
      | NegInf \<Rightarrow> ''-inf''
      | NaN \<Rightarrow> ''nan'')"

text \<open>
  \<open>f'{v:0.2f}'\<close> for a JSON value: a \<open>float\<close> as above, an \<open>int\<close> and a \<open>bool\<close> through
  \<open>float\<close>; a \<open>str\<close> raises \<open>ValueError\<close>, every other value \<open>TypeError\<close>.
\<close>

definition format_2f :: "json \<Rightarrow> py_error + string" where
  "format_2f v =
     (case v of
        JFloat f \<Rightarrow> Inr (format_2f_float f)
      | JInt n \<Rightarrow>
          (case float_of_int n of Inl err \<Rightarrow> Inl err | Inr r \<Rightarrow> Inr (format_2f_num r))
      | JBool b \<Rightarrow> Inr (format_2f_num (if b then 1 else 0))
      | JStr t \<Rightarrow> Inl ValueError
      | _ \<Rightarrow> Inl TypeError)"

subsection \<open>Dates\<close>

definition is_leap :: "nat \<Rightarrow> bool" where
  "is_leap y = (y mod 4 = 0 \<and> (y mod 100 \<noteq> 0 \<or> y mod 400 = 0))"

definition days_in_month :: "nat \<Rightarrow> nat \<Rightarrow> nat" where
  "days_in_month y m =
     (if m = 2 then (if is_leap y then 29 else 28)
      else if m = 4 \<or> m = 6 \<or> m = 9 \<or> m = 11 then 30 else 31)"

text \<open>One day back; \<open>datetime\<close> raises \<open>OverflowError\<close> before 1 January of year 1.\<close>

definition prev_day :: "date \<Rightarrow> py_error + date" where
  "prev_day d =
     (if 1 < day d then Inr (d\<lparr>day := day d - 1\<rparr>)
      else if 1 < month d then
        Inr \<lparr>year = year d, month = month d - 1, day = days_in_month (year d) (month d - 1)\<rparr>
      else if 1 < year d then Inr \<lparr>year = year d - 1, month = 12, day = 31\<rparr>
      else Inl OverflowError)"

text \<open>\<open>d - timedelta(days=i)\<close>\<close>

fun minus_days :: "date \<Rightarrow> nat \<Rightarrow> py_error + date" where
  "minus_days d 0 = Inr d"
| "minus_days d (Suc i) = (case prev_day d of Inl err \<Rightarrow> Inl err | Inr d' \<Rightarrow> minus_days d' i)"

text \<open>\<open>d.strftime("%d.%m.%Y")\<close>\<close>

definition strftime_dmY :: "date \<Rightarrow> string" where
  "strftime_dmY d = pad2 (day d) @ ''.'' @ pad2 (month d) @ ''.'' @ pad4 (year d)"

subsection \<open>\<open>DataFetcher.get_exchanges\<close>\<close>

text \<open>Lines 131 and 132: the key of day \<open>i\<close>.\<close>

definition date_key :: "env \<Rightarrow> nat \<Rightarrow> py_error + string" where
  "date_key e i =
     (case minus_days (today e) i of Inl err \<Rightarrow> Inl err | Inr d \<Rightarrow> Inr (strftime_dmY d))"

text \<open>
  Lines 133 to 139: the payload of the date, from the cache or from the provider, and
  the cache with the fetched payload stored.
\<close>

definition lookup_day :: "env \<Rightarrow> string \<Rightarrow> json \<Rightarrow> state \<Rightarrow> (py_error + json \<times> json) \<times> state" where
  "lookup_day e date_str cache s =
     (case contains cache date_str of
        Inl err \<Rightarrow> (Inl err, s)
      | Inr True \<Rightarrow>
          (case getitem cache date_str of
             Inl err \<Rightarrow> (Inl err, s)
           | Inr date_data \<Rightarrow> (Inr (date_data, cache), s))
      | Inr False \<Rightarrow>
          (case request e (BASE_URL @ date_str) s of
             (Inl err, s') \<Rightarrow> (Inl err, s')
           | (Inr date_data, s') \<Rightarrow>
               (case setitem cache date_str date_data of
                  Inl err \<Rightarrow> (Inl err, s')
                | Inr cache' \<Rightarrow> (Inr (date_data, cache'), s'))))"

definition no_data :: string where
  "no_data = ''---''"

text \<open>Lines 140 to 143: a row without data for every tracked currency.\<close>

definition blank_row :: rate_row where
  "blank_row = \<lparr>buy = no_data, sell = no_data, NBU = no_data\<rparr>"

definition blank_rates :: "string list \<Rightarrow> rates" where
  "blank_rates curs = foldl (\<lambda>r currency. AList.update currency blank_row r) [] curs"

text \<open>One field of a row: \<open>f'{cur_dict.get(key):0.2f}' if cur_dict.get(key) else "---"\<close>\<close>

definition rate_field :: "json \<Rightarrow> string \<Rightarrow> py_error + string" where
  "rate_field cur_dict key =
     (case dict_get cur_dict key of
        Inl err \<Rightarrow> Inl err
      | Inr v \<Rightarrow> if truthy v then format_2f v else Inr no_data)"

text \<open>Lines 148 to 158: the row of one entry of the payload.\<close>

definition row_of :: "json \<Rightarrow> py_error + rate_row" where
  "row_of cur_dict =
     (case rate_field cur_dict ''purchaseRate'' of
        Inl err \<Rightarrow> Inl err
      | Inr b \<Rightarrow>
          (case rate_field cur_dict ''saleRate'' of
             Inl err \<Rightarrow> Inl err
           | Inr sl \<Rightarrow>
               (case rate_field cur_dict ''saleRateNB'' of
                  Inl err \<Rightarrow> Inl err
                | Inr n \<Rightarrow> Inr \<lparr>buy = b, sell = sl, NBU = n\<rparr>)))"

text \<open>\<open>currency in self.currencies\<close>: only a string equals a tracked code.\<close>

definition tracked_code :: "json \<Rightarrow> string list \<Rightarrow> string option" where
  "tracked_code currency curs =
     (case currency of JStr c \<Rightarrow> if c \<in> set curs then Some c else None | _ \<Rightarrow> None)"

text \<open>Lines 145 to 158: the loop over the entries of the payload.\<close>

fun fill_rates :: "string list \<Rightarrow> json list \<Rightarrow> rates \<Rightarrow> py_error + rates" where
  "fill_rates curs [] rates = Inr rates"
| "fill_rates curs (cur_dict # rest) rates =
     (case dict_get cur_dict ''currency'' of
        Inl err \<Rightarrow> Inl err
      | Inr currency \<Rightarrow>
          (case tracked_code currency curs of
             None \<Rightarrow> fill_rates curs rest rates
           | Some c \<Rightarrow>
               (case row_of cur_dict of
                  Inl err \<Rightarrow> Inl err
                | Inr row \<Rightarrow> fill_rates curs rest (AList.update c row rates))))"

text \<open>Lines 140 to 158: the record of one day from its raw payload.\<close>

definition normalize :: "string list \<Rightarrow> json \<Rightarrow> py_error + rates" where
  "normalize curs date_data =
     (case getitem date_data ''exchangeRate'' of
        Inl err \<Rightarrow> Inl err
      | Inr listed \<Rightarrow>
          (case iterate listed of
             Inl err \<Rightarrow> Inl err
           | Inr entries \<Rightarrow> fill_rates curs entries (blank_rates curs)))"

text \<open>The body of the loop over the days, lines 131 to 160.\<close>

definition day_entry ::
  "env \<Rightarrow> nat \<Rightarrow> json \<Rightarrow> state \<Rightarrow> (py_error + (string \<times> rates) \<times> json) \<times> state" where
  "day_entry e i cache s =
     (case date_key e i of
        Inl err \<Rightarrow> (Inl err, s)
      | Inr date_str \<Rightarrow>
          (case lookup_day e date_str cache s of
             (Inl err, s') \<Rightarrow> (Inl err, s')
           | (Inr (date_data, cache'), s') \<Rightarrow>
               (case normalize (currencies s') date_data of
                  Inl err \<Rightarrow> (Inl err, s')
                | Inr rates \<Rightarrow> (Inr ((date_str, rates), cache'), s'))))"

text \<open>The loop \<open>for i in range(days)\<close>, with the local variables \<open>cache\<close> and \<open>result\<close>.\<close>

fun days_loop ::
  "env \<Rightarrow> nat list \<Rightarrow> json \<Rightarrow> (string \<times> rates) list \<Rightarrow> state
   \<Rightarrow> (py_error + json \<times> (string \<times> rates) list) \<times> state" where
  "days_loop e [] cache result s = (Inr (cache, result), s)"
| "days_loop e (i # rest) cache result s =
     (case day_entry e i cache s of
        (Inl err, s') \<Rightarrow> (Inl err, s')
      | (Inr (entry, cache'), s') \<Rightarrow> days_loop e rest cache' (result @ [entry]) s')"

definition get_exchanges ::
  "env \<Rightarrow> int \<Rightarrow> state \<Rightarrow> (py_error + string list \<times> (string \<times> rates) list) \<times> state" where
  "get_exchanges e days s =
     (case load_json_sync s of
        Inl err \<Rightarrow> (Inl err, s)
      | Inr cache \<Rightarrow>
          (case days_loop e [0..<nat days] cache [] s of
             (Inl err, s') \<Rightarrow> (Inl err, s')
           | (Inr (cache', result), s') \<Rightarrow>
               (Inr (currencies s', result), dump_json_sync cache' s')))"

subsection \<open>\<open>Server\<close>\<close>

text \<open>\<open>self.clients.add(ws)\<close>; the list is the set in the order its iterator visits it.\<close>

definition register :: "session \<Rightarrow> state \<Rightarrow> state" where
  "register ws s = (if ws \<in> set (clients s) then s else s\<lparr>clients := clients s @ [ws]\<rparr>)"

text \<open>\<open>await ws.send(message)\<close>\<close>

definition send :: "session \<Rightarrow> string \<Rightarrow> state \<Rightarrow> state" where
  "send ws message s = s\<lparr>sent := sent s @ [(ws, message)]\<rparr>"

text \<open>
  \<open>send_to_clients\<close> iterates over the set \<open>self.clients\<close> itself. The task may be
  suspended in each \<open>await client.send(message)\<close>; \<open>joins\<close> gives, for each of these
  awaits in turn, the connections that \<open>register\<close> while the task waits (none when the
  list is used up). The iterator of a Python set raises \<open>RuntimeError\<close> at its next step
  when the size of the set is no longer the size \<open>n\<close> it started with.
\<close>

fun deliver ::
  "nat \<Rightarrow> session list \<Rightarrow> session list list \<Rightarrow> string \<Rightarrow> state \<Rightarrow> py_error option \<times> state" where
  "deliver n [] joins message s =
     (if length (clients s) = n then None else Some RuntimeError, s)"
| "deliver n (client # rest) joins message s =
     (if length (clients s) \<noteq> n then (Some RuntimeError, s)
      else deliver n rest (tl joins) message
             (fold register (case joins of [] \<Rightarrow> [] | j # _ \<Rightarrow> j) (send client message s)))"

definition send_to_clients :: "session list list \<Rightarrow> string \<Rightarrow> state \<Rightarrow> py_error option \<times> state" where
  "send_to_clients joins message s =
     (if clients s \<noteq> [] then deliver (length (clients s)) (clients s) joins message s
      else (None, s))"

text \<open>Lines 216 to 219: the number of days of a show command.\<close>

definition requested_days :: "string list \<Rightarrow> py_error + int" where
  "requested_days args =
     (if 1 < length args \<and> py_isdigit (args ! 1) then
        (case py_int (args ! 1) of Inl err \<Rightarrow> Inl err | Inr days \<Rightarrow> Inr (min 10 (max 1 days)))
      else Inr 1)"

text \<open>Lines 216 to 222: the table of the requested days, sent to the requester.\<close>

definition show_exchange :: "env \<Rightarrow> session \<Rightarrow> string list \<Rightarrow> state \<Rightarrow> (py_error + unit) \<times> state" where
  "show_exchange e ws args s =
     (case requested_days args of
        Inl err \<Rightarrow> (Inl err, s)
      | Inr days \<Rightarrow>
          (case get_exchanges e days s of
             (Inl err, s') \<Rightarrow> (Inl err, s')
           | (Inr (headers, exchanges), s') \<Rightarrow>
               (Inr (), send ws (render e headers exchanges) s')))"

text \<open>Lines 208 to 222: the body of the \<open>try\<close> statement.\<close>

definition exchange_command :: "env \<Rightarrow> session \<Rightarrow> string \<Rightarrow> state \<Rightarrow> (py_error + unit) \<times> state" where
  "exchange_command e ws message s =
     (let args = py_split message
      in if 2 < length args \<and> py_lower (args ! 1) = ''add'' then
           (case add_currency (py_upper (args ! 2)) s of (msg, s') \<Rightarrow> (Inr (), send ws msg s'))
         else if 2 < length args \<and> py_lower (args ! 1) = ''remove'' then
           (case remove_currency (py_upper (args ! 2)) s of (msg, s') \<Rightarrow> (Inr (), send ws msg s'))
         else show_exchange e ws args s)"

text \<open>Lines 226 and 227: one line appended to \<open>log_exchange.log\<close>.\<close>

definition write_log :: "env \<Rightarrow> session \<Rightarrow> string \<Rightarrow> state \<Rightarrow> state" where
  "write_log e ws message s =
     s\<lparr>log_exchange := log_exchange s @
         [now e @ '' '' @ remote_address ws @ '': '' @ name ws @ '': '' @ message @ [CHR 0x0A]]\<rparr>"

text \<open>
  The body of the loop of \<open>handle_messages\<close> for one inbound message: \<open>None\<close> when the
  loop goes on to the next message, \<open>Some err\<close> when \<open>err\<close> leaves \<open>handle_messages\<close>.
\<close>

definition handle_message ::
  "env \<Rightarrow> session list list \<Rightarrow> session \<Rightarrow> string \<Rightarrow> state \<Rightarrow> py_error option \<times> state" where
  "handle_message e joins ws message s =
     (if prefix ''exchange'' message then
        (case exchange_command e ws message s of
           (Inl (HttpError a), s') \<Rightarrow>
             (None, write_log e ws message (send ws ''Something went wrong'' s'))
         | (Inl err, s') \<Rightarrow> (Some err, s')
         | (Inr u, s') \<Rightarrow> (None, write_log e ws message s'))
      else send_to_clients joins (name ws @ '': '' @ message) s)"

text \<open>The loop \<open>async for message in ws\<close> over the messages that arrive.\<close>

fun handle_messages ::
  "env \<Rightarrow> session \<Rightarrow> (session list list \<times> string) list \<Rightarrow> state \<Rightarrow> py_error option \<times> state" where
  "handle_messages e ws [] s = (None, s)"
| "handle_messages e ws ((joins, message) # rest) s =
     (case handle_message e joins ws message s of
        (Some err, s') \<Rightarrow> (Some err, s')
      | (None, s') \<Rightarrow> handle_messages e ws rest s')"

section \<open>Notions used in the statements\<close>

text \<open>The invariant of the tracked currencies: codes of the catalog, each at most once.\<close>

definition tracked_ok :: "state \<Rightarrow> bool" where
  "tracked_ok s = (set (currencies s) \<subseteq> ALL_CURRENCIES \<and> distinct (currencies s))"

text \<open>The URLs asked of the provider between the state \<open>s\<close> and the later state \<open>s'\<close>.\<close>

definition new_requests :: "state \<Rightarrow> state \<Rightarrow> string list" where
  "new_requests s s' = drop (length (requests s)) (requests s')"

text \<open>The entries of a cache, date to payload, and the entries that the cache file holds.\<close>

definition entries :: "json \<Rightarrow> (string \<rightharpoonup> json)" where
  "entries v = (case v of JDict kvs \<Rightarrow> map_of kvs | _ \<Rightarrow> Map.empty)"

definition stored :: "cache_file \<Rightarrow> (string \<rightharpoonup> json)" where
  "stored f = (case f of Holds v \<Rightarrow> entries v | _ \<Rightarrow> Map.empty)"

text \<open>The cache \<open>c'\<close> is the cache \<open>c\<close>, possibly with entries added.\<close>

definition grown :: "json \<Rightarrow> json \<Rightarrow> bool" where
  "grown c c' =
     (c' = c \<or> (\<exists>kvs kvs'. c = JDict kvs \<and> c' = JDict kvs' \<and> map_of kvs \<subseteq>\<^sub>m map_of kvs'))"

text \<open>
  A failed fetch: a status other than 200, a connection failure of any kind, an invalid
  URL.
\<close>

definition fetch_fails :: "reply \<Rightarrow> bool" where
  "fetch_fails r = (case r of Response status b \<Rightarrow> status \<noteq> 200 | _ \<Rightarrow> True)"

text \<open>
  The failed fetches that \<open>request\<close> turns into \<open>HttpError\<close>: a status other than 200,
  \<open>ClientConnectorError\<close> (the connection could not be made), \<open>InvalidURL\<close>.
\<close>

definition fetch_caught :: "reply \<Rightarrow> bool" where
  "fetch_caught r =
     (case r of
        Response status b \<Rightarrow> status \<noteq> 200
      | ClientConnectorError err \<Rightarrow> True
      | InvalidURL err \<Rightarrow> True
      | OtherFailure cls \<Rightarrow> False)"











subsection \<open>Concrete inputs for the examples\<close>

definition usd_payload :: json where
  "usd_payload =
     JDict [(''exchangeRate'',
       JList [JDict [(''currency'', JStr ''USD''), (''purchaseRate'', JFloat (Finite (55 / 2))),
                     (''saleRate'', JInt 0)],
              JDict [(''currency'', JStr ''GBP''), (''saleRateNB'', JInt 50)]])]"



definition demo_env :: env where
  "demo_env =
     \<lparr>upstream = (\<lambda>url. Response 200 (JsonBody usd_payload)),
      today = \<lparr>year = 2024, month = 3, day = 1\<rparr>,
      now = ''2024-03-01 12:00:00'',
      render = (\<lambda>headers data. join '' '' (map fst data))\<rparr>"

definition down_env :: env where
  "down_env = demo_env\<lparr>upstream := (\<lambda>url. Response 500 OtherBody)\<rparr>"

definition drop_env :: env where
  "drop_env = demo_env\<lparr>upstream := (\<lambda>url. OtherFailure ''ServerDisconnectedError'')\<rparr>"

definition cached_state :: state where
  "cached_state = init (Holds (JDict [(''01.03.2024'', usd_payload)]))"

definition ann :: session where
  "ann = \<lparr>sid = 1, name = ''Ann'', remote_address = ''10.0.0.1''\<rparr>"

definition bob :: session where
  "bob = \<lparr>sid = 2, name = ''Bob'', remote_address = ''10.0.0.2''\<rparr>"

definition cyd :: session where
  "cyd = \<lparr>sid = 3, name = ''Cyd'', remote_address = ''10.0.0.3''\<rparr>"


definition bare_env :: env where
  "bare_env = demo_env\<lparr>upstream := (\<lambda>url. Response 200 (JsonBody (JDict [])))\<rparr>"

definition flaky_env :: env where
  "flaky_env =
     demo_env\<lparr>upstream := (\<lambda>url. if url = BASE_URL @ ''01.03.2024''
                                then Response 200 (JsonBody usd_payload)
                                else Response 500 OtherBody)\<rparr>"

definition room :: state where
  "room = (init Absent)\<lparr>clients := [ann, bob, cyd]\<rparr>"

section \<open>Properties\<close>

subsection \<open>The tracked currencies\<close>

lemma init_tracked: "tracked_ok (init f)"
  by (simp add: tracked_ok_def init_def ALL_CURRENCIES_def)

lemma add_tracked: "tracked_ok s \<Longrightarrow> tracked_ok (snd (add_currency c s))"
  by (auto simp: tracked_ok_def add_currency_def Let_def)

lemma remove_tracked: "tracked_ok s \<Longrightarrow> tracked_ok (snd (remove_currency c s))"
  by (auto simp: tracked_ok_def remove_currency_def Let_def dest: notin_set_remove1)

text \<open>
  Claim C6. The tracked currencies start as USD, EUR. The invariant (codes of the
  catalog only, none twice) holds at the start and, when it holds before a call of
  \<open>add_currency\<close> or \<open>remove_currency\<close>, it holds after the call, whatever the argument.
  Adding a code that is not in the catalog, adding a code that is already tracked and
  removing a code that is not tracked return the state unchanged, with a message that
  ends with the list of the tracked codes.
\<close>

theorem tracked_set_invariant:
  assumes "tracked_ok s"
  shows "tracked_ok (init f) \<and> currencies (init f) = [''USD'', ''EUR'']
    \<and> tracked_ok (snd (add_currency c s))
    \<and> tracked_ok (snd (remove_currency c s))
    \<and> (c \<notin> ALL_CURRENCIES \<longrightarrow>
         add_currency c s =
           (''There is no such currency. Current currencies: '' @ join '', '' (currencies s), s))
    \<and> (c \<in> ALL_CURRENCIES \<and> c \<in> set (currencies s) \<longrightarrow>
         add_currency c s =
           (c @ '' is already in the list. Current currencies: '' @ join '', '' (currencies s), s))
    \<and> (c \<notin> set (currencies s) \<longrightarrow>
         remove_currency c s =
           (c @ '' is not in the list. Current currencies: '' @ join '', '' (currencies s), s))"
  using assms init_tracked [of f] add_tracked [of s c] remove_tracked [of s c]
  by (simp add: add_currency_def remove_currency_def current_currencies_def init_def)

theorem tracked_set_invariant_witness:
  "tracked_ok (init Absent)
   \<and> add_currency ''XXX'' (init Absent) =
       (''There is no such currency. Current currencies: USD, EUR'', init Absent)
   \<and> add_currency ''EUR'' (init Absent) =
       (''EUR is already in the list. Current currencies: USD, EUR'', init Absent)
   \<and> remove_currency ''GBP'' (init Absent) =
       (''GBP is not in the list. Current currencies: USD, EUR'', init Absent)
   \<and> currencies (snd (add_currency ''GBP'' (init Absent))) = [''USD'', ''EUR'', ''GBP'']
   \<and> tracked_ok (snd (add_currency ''GBP'' (init Absent)))"
proof -
  have ok: "tracked_ok (init Absent)"
    by (rule init_tracked)
  have 1: "''XXX'' \<notin> ALL_CURRENCIES"
    by (simp add: ALL_CURRENCIES_def)
  have 2: "''EUR'' \<in> ALL_CURRENCIES \<and> ''EUR'' \<in> set (currencies (init Absent))"
    by (simp add: ALL_CURRENCIES_def init_def)
  have 3: "''GBP'' \<notin> set (currencies (init Absent))"
    by (simp add: init_def)
  have 4: "currencies (snd (add_currency ''GBP'' (init Absent))) = [''USD'', ''EUR'', ''GBP'']"
    by (simp add: add_currency_def init_def ALL_CURRENCIES_def Let_def)
  show ?thesis
    using ok 1 2 3 4 tracked_set_invariant [OF ok, of Absent "''XXX''"]
      tracked_set_invariant [OF ok, of Absent "''EUR''"]
      tracked_set_invariant [OF ok, of Absent "''GBP''"]
    by (simp add: init_def)
qed

subsection \<open>One cycle of \<open>get_exchanges\<close>\<close>

lemma grown_refl: "grown c c"
  by (simp add: grown_def)

lemma grown_trans: "grown a b \<Longrightarrow> grown b c \<Longrightarrow> grown a c"
  by (auto simp: grown_def intro: map_le_trans)

lemma grown_contains: "grown c c' \<Longrightarrow> contains c' d = Inr False \<Longrightarrow> contains c d = Inr False"
  by (auto simp: grown_def contains_def map_le_def dom_map_of_conv_image_fst [symmetric] dom_def)

lemma setitem_grown: "contains c d = Inr False \<Longrightarrow> setitem c d v = Inr c' \<Longrightarrow> grown c c'"
proof (cases c)
  case (JDict kvs)
  assume "contains c d = Inr False" and set: "setitem c d v = Inr c'"
  with JDict have "map_of kvs d = None"
    by (simp add: contains_def map_of_eq_None_iff)
  then have "map_of kvs \<subseteq>\<^sub>m map_of (AList.update d v kvs)"
    by (auto simp: map_le_def update_conv')
  with JDict set show ?thesis
    by (auto simp: grown_def setitem_def)
qed (simp_all add: setitem_def)

lemma lookup_day_state:
  "lookup_day e d c s = (r, s') \<Longrightarrow>
     s' = s \<or> (s' = s\<lparr>requests := requests s @ [BASE_URL @ d]\<rparr> \<and> contains c d = Inr False
        \<and> (\<forall>x. request_result e (BASE_URL @ d) = Inl x \<longrightarrow> r = Inl x)
        \<and> (\<forall>v c'. r = Inr (v, c') \<longrightarrow> request_result e (BASE_URL @ d) = Inr v \<and> setitem c d v = Inr c'))"
  by (auto simp: lookup_day_def request_def split: sum.splits bool.splits if_splits prod.splits)

lemma lookup_day_grown: "lookup_day e d c s = (Inr (v, c'), s') \<Longrightarrow> grown c c'"
  by (auto simp: lookup_day_def request_def grown_refl split: sum.splits bool.splits if_splits prod.splits
      intro: setitem_grown)

lemma day_entry_state:
  "day_entry e i c s = (r, s') \<Longrightarrow>
     s' = s \<or> (\<exists>d. date_key e i = Inr d \<and> s' = s\<lparr>requests := requests s @ [BASE_URL @ d]\<rparr> \<and> contains c d = Inr False
        \<and> (\<forall>x. request_result e (BASE_URL @ d) = Inl x \<longrightarrow> r = Inl x)
        \<and> (\<forall>en c'. r = Inr (en, c') \<longrightarrow> (\<exists>v. request_result e (BASE_URL @ d) = Inr v \<and> setitem c d v = Inr c')))"
  apply (simp add: day_entry_def split: sum.splits prod.splits)
  apply (auto dest!: lookup_day_state)
  done

lemma day_entry_grown: "day_entry e i c s = (Inr (en, c'), s') \<Longrightarrow> grown c c'"
  by (auto simp: day_entry_def split: sum.splits prod.splits dest: lookup_day_grown)

lemma day_entry_key: "day_entry e i c s = (Inr (en, c'), s') \<Longrightarrow> date_key e i = Inr (fst en)"
  by (auto simp: day_entry_def split: sum.splits prod.splits)


lemma grown_entries: "grown c c' \<Longrightarrow> entries c d = Some v \<Longrightarrow> entries c' d = Some v"
  by (auto simp: grown_def entries_def map_le_def dom_def)

lemma setitem_entries: "setitem c d v = Inr c' \<Longrightarrow> entries c' d = Some v"
  by (auto simp: setitem_def entries_def update_conv' split: json.splits)

lemma day_entry_new:
  assumes "day_entry e i c s = (r, s')"
  shows "\<exists>new. s' = s\<lparr>requests := requests s @ new\<rparr>
    \<and> (\<forall>u\<in>set new. \<exists>d. date_key e i = Inr d \<and> u = BASE_URL @ d \<and> contains c d = Inr False)
    \<and> (\<forall>u\<in>set new. \<forall>x. request_result e u = Inl x \<longrightarrow> r = Inl x)
    \<and> (\<forall>en c'. r = Inr (en, c') \<longrightarrow>
          (\<forall>u\<in>set new. \<exists>d v. u = BASE_URL @ d \<and> request_result e u = Inr v \<and> entries c' d = Some v))"
proof -
  from day_entry_state [OF assms] show ?thesis
  proof
    assume "s' = s"
    then have "s' = s\<lparr>requests := requests s @ []\<rparr>" by simp
    then show ?thesis by (intro exI [of _ "[]"]) simp
  next
    assume "\<exists>d. date_key e i = Inr d \<and> s' = s\<lparr>requests := requests s @ [BASE_URL @ d]\<rparr>
      \<and> contains c d = Inr False
      \<and> (\<forall>x. request_result e (BASE_URL @ d) = Inl x \<longrightarrow> r = Inl x)
      \<and> (\<forall>en c'. r = Inr (en, c') \<longrightarrow>
           (\<exists>v. request_result e (BASE_URL @ d) = Inr v \<and> setitem c d v = Inr c'))"
    then obtain d where d: "date_key e i = Inr d" "s' = s\<lparr>requests := requests s @ [BASE_URL @ d]\<rparr>"
      "contains c d = Inr False" "\<forall>x. request_result e (BASE_URL @ d) = Inl x \<longrightarrow> r = Inl x"
      "\<forall>en c'. r = Inr (en, c') \<longrightarrow>
           (\<exists>v. request_result e (BASE_URL @ d) = Inr v \<and> setitem c d v = Inr c')"
      by blast
    show ?thesis
      using d setitem_entries [of c d _ _] by (intro exI [of _ "[BASE_URL @ d]"]) auto
  qed
qed

lemma days_loop_inv:
  "days_loop e ds c res s = (r, s') \<Longrightarrow>
   \<exists>new. s' = s\<lparr>requests := requests s @ new\<rparr>
    \<and> (\<forall>u\<in>set new. \<exists>i d. i \<in> set ds \<and> date_key e i = Inr d \<and> u = BASE_URL @ d \<and> contains c d = Inr False)
    \<and> (\<forall>u\<in>set new. \<forall>x. request_result e u = Inl x \<longrightarrow> r = Inl x)
    \<and> (\<forall>c' result. r = Inr (c', result) \<longrightarrow> grown c c'
          \<and> (\<exists>ents. result = res @ ents \<and> map (\<lambda>en. Inr (fst en)) ents = map (date_key e) ds)
          \<and> (\<forall>u\<in>set new. \<exists>d v. u = BASE_URL @ d \<and> request_result e u = Inr v \<and> entries c' d = Some v))"
proof (induction ds arbitrary: c res s)
  case Nil
  then have "s' = s\<lparr>requests := requests s @ []\<rparr>" and "r = Inr (c, res)" by auto
  then show ?case by (intro exI [of _ "[]"]) (simp add: grown_refl)
next
  case (Cons i ds)
  obtain r1 s1 where step: "day_entry e i c s = (r1, s1)" by (cases "day_entry e i c s")
  from day_entry_new [OF step] obtain new1 where new1:
    "s1 = s\<lparr>requests := requests s @ new1\<rparr>"
    "\<forall>u\<in>set new1. \<exists>d. date_key e i = Inr d \<and> u = BASE_URL @ d \<and> contains c d = Inr False"
    "\<forall>u\<in>set new1. \<forall>x. request_result e u = Inl x \<longrightarrow> r1 = Inl x"
    "\<forall>en c'. r1 = Inr (en, c') \<longrightarrow>
          (\<forall>u\<in>set new1. \<exists>d v. u = BASE_URL @ d \<and> request_result e u = Inr v \<and> entries c' d = Some v)"
    by blast
  show ?case
  proof (cases r1)
    case (Inl err)
    with Cons.prems step have "r = Inl err" "s' = s1" by auto
    with new1 Inl show ?thesis by (intro exI [of _ new1]) auto
  next
    case (Inr p)
    obtain en c1 where p: "p = (en, c1)" by (cases p)
    with Inr step Cons.prems have rest: "days_loop e ds c1 (res @ [en]) s1 = (r, s')" by simp
    from Inr p step have g1: "grown c c1" and k1: "date_key e i = Inr (fst en)"
      by (auto dest: day_entry_grown day_entry_key)
    from Cons.IH [OF rest] obtain new2 where new2:
      "s' = s1\<lparr>requests := requests s1 @ new2\<rparr>"
      "\<forall>u\<in>set new2. \<exists>i d. i \<in> set ds \<and> date_key e i = Inr d \<and> u = BASE_URL @ d \<and> contains c1 d = Inr False"
      "\<forall>u\<in>set new2. \<forall>x. request_result e u = Inl x \<longrightarrow> r = Inl x"
      "\<forall>c' result. r = Inr (c', result) \<longrightarrow> grown c1 c'
          \<and> (\<exists>ents. result = (res @ [en]) @ ents \<and> map (\<lambda>en. Inr (fst en)) ents = map (date_key e) ds)
          \<and> (\<forall>u\<in>set new2. \<exists>d v. u = BASE_URL @ d \<and> request_result e u = Inr v \<and> entries c' d = Some v)"
      by blast
    have a: "s' = s\<lparr>requests := requests s @ (new1 @ new2)\<rparr>"
      using new1(1) new2(1) by simp
    have b: "\<forall>u\<in>set (new1 @ new2). \<exists>j d. j \<in> set (i # ds) \<and> date_key e j = Inr d \<and> u = BASE_URL @ d \<and> contains c d = Inr False"
    proof
      fix u assume "u \<in> set (new1 @ new2)"
      then consider "u \<in> set new1" | "u \<in> set new2" by auto
      then show "\<exists>j d. j \<in> set (i # ds) \<and> date_key e j = Inr d \<and> u = BASE_URL @ d \<and> contains c d = Inr False"
      proof cases
        case 1
        with new1(2) obtain d where "date_key e i = Inr d" "u = BASE_URL @ d" "contains c d = Inr False"
          by blast
        then show ?thesis by (intro exI [of _ i] exI [of _ d]) simp
      next
        case 2
        with new2(2) obtain j d where jd: "j \<in> set ds" "date_key e j = Inr d" "u = BASE_URL @ d"
          "contains c1 d = Inr False"
          by blast
        from g1 jd(4) have "contains c d = Inr False" by (rule grown_contains)
        with jd show ?thesis by (intro exI [of _ j] exI [of _ d]) simp
      qed
    qed
    have c: "\<forall>u\<in>set (new1 @ new2). \<forall>x. request_result e u = Inl x \<longrightarrow> r = Inl x"
      using new1(3) new2(3) Inr by auto
    have d: "\<forall>c' result. r = Inr (c', result) \<longrightarrow> grown c c'
          \<and> (\<exists>ents. result = res @ ents \<and> map (\<lambda>en. Inr (fst en)) ents = map (date_key e) (i # ds))
          \<and> (\<forall>u\<in>set (new1 @ new2). \<exists>d v. u = BASE_URL @ d \<and> request_result e u = Inr v \<and> entries c' d = Some v)"
    proof (intro allI impI)
      fix c' result assume r: "r = Inr (c', result)"
      with new2(4) obtain ents where e2: "grown c1 c'" "result = (res @ [en]) @ ents"
        "map (\<lambda>en. Inr (fst en)) ents = map (date_key e) ds"
        "\<forall>u\<in>set new2. \<exists>d v. u = BASE_URL @ d \<and> request_result e u = Inr v \<and> entries c' d = Some v"
        by blast
      have "grown c c'" using g1 e2(1) by (rule grown_trans)
      moreover have "\<exists>ents. result = res @ ents \<and> map (\<lambda>en. Inr (fst en)) ents = map (date_key e) (i # ds)"
        using e2(2,3) k1 by (intro exI [of _ "en # ents"]) simp
      moreover have "\<forall>u\<in>set new1. \<exists>d v. u = BASE_URL @ d \<and> request_result e u = Inr v \<and> entries c' d = Some v"
      proof
        fix u assume "u \<in> set new1"
        with new1(4) Inr p obtain d v where dv: "u = BASE_URL @ d" "request_result e u = Inr v"
          "entries c1 d = Some v"
          by blast
        from e2(1) dv(3) have "entries c' d = Some v" by (rule grown_entries)
        with dv show "\<exists>d v. u = BASE_URL @ d \<and> request_result e u = Inr v \<and> entries c' d = Some v"
          by blast
      qed
      ultimately show "grown c c'
          \<and> (\<exists>ents. result = res @ ents \<and> map (\<lambda>en. Inr (fst en)) ents = map (date_key e) (i # ds))
          \<and> (\<forall>u\<in>set (new1 @ new2). \<exists>d v. u = BASE_URL @ d \<and> request_result e u = Inr v \<and> entries c' d = Some v)"
        using e2(4) by auto
    qed
    show ?thesis by (intro exI [of _ "new1 @ new2"] conjI) (rule a b c d)+
  qed
qed

lemma grown_getitem: "grown c c' \<Longrightarrow> getitem c d = Inr v \<Longrightarrow> getitem c' d = Inr v"
  by (auto simp: grown_def getitem_def map_le_def dom_def split: json.splits option.splits)

lemma grown_getitem_back:
  "grown c c' \<Longrightarrow> contains c d = Inr True \<Longrightarrow> getitem c' d = Inr v \<Longrightarrow> getitem c d = Inr v"
  by (auto simp: grown_def getitem_def contains_def map_le_def dom_map_of_conv_image_fst [symmetric]
      split: option.splits)

lemma grown_map_le: "grown c c' \<Longrightarrow> entries c \<subseteq>\<^sub>m entries c'"
  by (auto simp: grown_def entries_def)

lemma lookup_day_payload:
  "lookup_day e d c s = (Inr (v, c'), s') \<Longrightarrow> getitem c' d = Inr v \<and> currencies s' = currencies s"
  by (auto simp: lookup_day_def request_def setitem_def getitem_def update_conv'
      split: sum.splits bool.splits if_splits prod.splits json.splits)

lemma day_entry_payload:
  "day_entry e i c s = (Inr (en, c'), s') \<Longrightarrow>
   \<exists>v. getitem c' (fst en) = Inr v \<and> normalize (currencies s) v = Inr (snd en)"
  by (auto simp: day_entry_def split: sum.splits prod.splits dest!: lookup_day_payload)

lemma day_entry_currencies: "day_entry e i c s = (r, s') \<Longrightarrow> currencies s' = currencies s"
  by (auto dest!: day_entry_state)

lemma days_loop_payload:
  "days_loop e ds c res s = (Inr (c', result), s') \<Longrightarrow>
   \<exists>ents. result = res @ ents
     \<and> (\<forall>en\<in>set ents. \<exists>v. getitem c' (fst en) = Inr v \<and> normalize (currencies s) v = Inr (snd en))"
proof (induction ds arbitrary: c res s)
  case Nil
  then show ?case by simp
next
  case (Cons i ds)
  obtain r1 s1 where step: "day_entry e i c s = (r1, s1)" by (cases "day_entry e i c s")
  with Cons.prems obtain en c1 where r1: "r1 = Inr (en, c1)"
    by (cases r1) auto
  with step Cons.prems have rest: "days_loop e ds c1 (res @ [en]) s1 = (Inr (c', result), s')"
    by simp
  from Cons.IH [OF rest] obtain ents where ents: "result = (res @ [en]) @ ents"
    "\<forall>x\<in>set ents. \<exists>v. getitem c' (fst x) = Inr v \<and> normalize (currencies s1) v = Inr (snd x)"
    by blast
  from days_loop_inv [OF rest] have g: "grown c1 c'" by blast
  from step have cur: "currencies s1 = currencies s" by (rule day_entry_currencies)
  from step r1 obtain v where v: "getitem c1 (fst en) = Inr v" "normalize (currencies s) v = Inr (snd en)"
    by (auto dest: day_entry_payload)
  from g v(1) have "getitem c' (fst en) = Inr v" by (rule grown_getitem)
  with v(2) ents(2) cur
  have "\<forall>x\<in>set (en # ents). \<exists>v. getitem c' (fst x) = Inr v \<and> normalize (currencies s) v = Inr (snd x)"
    by auto
  with ents(1) show ?case by (intro exI [of _ "en # ents"]) simp
qed

text \<open>What a call of \<open>get_exchanges\<close> does, in one statement.\<close>

lemma get_exchanges_inv:
  assumes "get_exchanges e days s = (r, s')"
  shows "\<exists>new. s' = s\<lparr>cache_file := cache_file s', requests := requests s @ new\<rparr>
    \<and> (\<forall>u\<in>set new. \<exists>i d snap. i < nat days \<and> date_key e i = Inr d \<and> u = BASE_URL @ d
          \<and> load_json_sync s = Inr snap \<and> contains snap d = Inr False)
    \<and> (\<forall>u\<in>set new. \<forall>x. request_result e u = Inl x \<longrightarrow> r = Inl x)
    \<and> (\<forall>x. r = Inl x \<longrightarrow> cache_file s' = cache_file s)
    \<and> (\<forall>h result. r = Inr (h, result) \<longrightarrow> h = currencies s
          \<and> map (\<lambda>en. Inr (fst en)) result = map (date_key e) [0..<nat days]
          \<and> (\<exists>snap c'. load_json_sync s = Inr snap \<and> cache_file s' = Holds c' \<and> grown snap c'
                \<and> (\<forall>u\<in>set new. \<exists>d v. u = BASE_URL @ d \<and> request_result e u = Inr v
                      \<and> entries c' d = Some v)
                \<and> (\<forall>en\<in>set result. \<exists>v. getitem c' (fst en) = Inr v
                      \<and> normalize (currencies s) v = Inr (snd en))))"
proof (cases "load_json_sync s")
  case (Inl err)
  with assms have "r = Inl err" "s' = s" by (auto simp: get_exchanges_def)
  then have "s' = s\<lparr>cache_file := cache_file s', requests := requests s @ []\<rparr>" by simp
  with \<open>r = Inl err\<close> \<open>s' = s\<close> show ?thesis by (intro exI [of _ "[]"]) simp
next
  case (Inr snap)
  obtain r1 s1 where loop: "days_loop e [0..<nat days] snap [] s = (r1, s1)"
    by (cases "days_loop e [0..<nat days] snap [] s")
  from days_loop_inv [OF loop] obtain new where new:
    "s1 = s\<lparr>requests := requests s @ new\<rparr>"
    "\<forall>u\<in>set new. \<exists>i d. i \<in> set [0..<nat days] \<and> date_key e i = Inr d \<and> u = BASE_URL @ d
        \<and> contains snap d = Inr False"
    "\<forall>u\<in>set new. \<forall>x. request_result e u = Inl x \<longrightarrow> r1 = Inl x"
    "\<forall>c' result. r1 = Inr (c', result) \<longrightarrow> grown snap c'
        \<and> (\<exists>ents. result = [] @ ents \<and> map (\<lambda>en. Inr (fst en)) ents = map (date_key e) [0..<nat days])
        \<and> (\<forall>u\<in>set new. \<exists>d v. u = BASE_URL @ d \<and> request_result e u = Inr v \<and> entries c' d = Some v)"
    by blast
  have fetched: "\<forall>u\<in>set new. \<exists>i d snap. i < nat days \<and> date_key e i = Inr d \<and> u = BASE_URL @ d
          \<and> load_json_sync s = Inr snap \<and> contains snap d = Inr False"
  proof
    fix u assume "u \<in> set new"
    with new(2) obtain i d where "i \<in> set [0..<nat days]" "date_key e i = Inr d" "u = BASE_URL @ d"
      "contains snap d = Inr False"
      by blast
    with Inr show "\<exists>i d snap. i < nat days \<and> date_key e i = Inr d \<and> u = BASE_URL @ d
          \<and> load_json_sync s = Inr snap \<and> contains snap d = Inr False"
      by (intro exI [of _ i] exI [of _ d] exI [of _ snap]) simp
  qed
  show ?thesis
  proof (cases r1)
    case (Inl err)
    with assms Inr loop have res: "r = Inl err" "s' = s1" by (auto simp: get_exchanges_def)
    with new(1) have "s' = s\<lparr>cache_file := cache_file s', requests := requests s @ new\<rparr>"
      "cache_file s' = cache_file s"
      by simp_all
    with res new(3) Inl fetched show ?thesis by (intro exI [of _ new]) simp
  next
    case r1: (Inr p)
    obtain c' result where p: "p = (c', result)" by (cases p)
    with assms Inr loop r1 have res: "r = Inr (currencies s1, result)" "s' = dump_json_sync c' s1"
      by (auto simp: get_exchanges_def)
    from new(1) res(2) have frame: "s' = s\<lparr>cache_file := cache_file s', requests := requests s @ new\<rparr>"
      and held: "cache_file s' = Holds c'" and cur: "currencies s1 = currencies s"
      by (simp_all add: dump_json_sync_def)
    from new(4) r1 p have g: "grown snap c'"
      and keys: "map (\<lambda>en. Inr (fst en)) result = map (date_key e) [0..<nat days]"
      and kept: "\<forall>u\<in>set new. \<exists>d v. u = BASE_URL @ d \<and> request_result e u = Inr v \<and> entries c' d = Some v"
      by auto
    from days_loop_payload [of e "[0..<nat days]" snap "[]" s c' result s1] loop r1 p
    have pay: "\<forall>en\<in>set result. \<exists>v. getitem c' (fst en) = Inr v
        \<and> normalize (currencies s) v = Inr (snd en)"
      by simp
    have ok: "\<forall>u\<in>set new. \<forall>x. request_result e u = Inl x \<longrightarrow> r = Inl x"
      using kept by fastforce
    have succ: "\<forall>h result'. r = Inr (h, result') \<longrightarrow> h = currencies s
          \<and> map (\<lambda>en. Inr (fst en)) result' = map (date_key e) [0..<nat days]
          \<and> (\<exists>snap c'. load_json_sync s = Inr snap \<and> cache_file s' = Holds c' \<and> grown snap c'
                \<and> (\<forall>u\<in>set new. \<exists>d v. u = BASE_URL @ d \<and> request_result e u = Inr v
                      \<and> entries c' d = Some v)
                \<and> (\<forall>en\<in>set result'. \<exists>v. getitem c' (fst en) = Inr v
                      \<and> normalize (currencies s) v = Inr (snd en)))"
      using res(1) cur keys Inr held g kept pay by blast
    have fail: "\<forall>x. r = Inl x \<longrightarrow> cache_file s' = cache_file s"
      using res(1) by simp
    show ?thesis
      by (intro exI [of _ new] conjI) (rule frame fetched ok fail succ)+
  qed
qed

lemma frame_fields:
  "s' = s\<lparr>cache_file := f, requests := q\<rparr> \<Longrightarrow>
   requests s' = q \<and> currencies s' = currencies s \<and> clients s' = clients s \<and> sent s' = sent s
   \<and> log_exchange s' = log_exchange s"
  by simp

lemma new_requests_append: "requests s' = requests s @ new \<Longrightarrow> new_requests s s' = new"
  by (simp add: new_requests_def)

lemma get_exchanges_new_requests:
  assumes "get_exchanges e days s = (r, s')"
  shows "s' = s\<lparr>cache_file := cache_file s', requests := requests s @ new_requests s s'\<rparr>"
proof -
  from get_exchanges_inv [OF assms] obtain new
    where new: "s' = s\<lparr>cache_file := cache_file s', requests := requests s @ new\<rparr>"
    by blast
  then have "requests s' = requests s @ new"
    by (auto dest: frame_fields)
  then have "new_requests s s' = new" by (rule new_requests_append)
  with new show ?thesis by simp
qed

lemma map_le_Some: "m \<subseteq>\<^sub>m m' \<Longrightarrow> m k = Some v \<Longrightarrow> m' k = Some v"
  by (auto simp: map_le_def dom_def)

lemma load_stored: "load_json_sync s = Inr snap \<Longrightarrow> stored (cache_file s) = entries snap"
  by (auto simp: load_json_sync_def stored_def entries_def split: cache_file.splits)

text \<open>An example: two days are requested, the first is cached, the second is fetched.\<close>

lemma demo_run:
  "get_exchanges demo_env 2 cached_state =
     (Inr ([''USD'', ''EUR''],
        [(''01.03.2024'',
           [(''USD'', \<lparr>buy = ''27.50'', sell = ''---'', NBU = ''---''\<rparr>),
            (''EUR'', \<lparr>buy = ''---'', sell = ''---'', NBU = ''---''\<rparr>)]),
         (''29.02.2024'',
           [(''USD'', \<lparr>buy = ''27.50'', sell = ''---'', NBU = ''---''\<rparr>),
            (''EUR'', \<lparr>buy = ''---'', sell = ''---'', NBU = ''---''\<rparr>)])]),
      cached_state
        \<lparr>cache_file := Holds (JDict [(''01.03.2024'', usd_payload), (''29.02.2024'', usd_payload)]),
         requests := [BASE_URL @ ''29.02.2024'']\<rparr>)"
  by code_simp

lemma cached_state_fields:
  "currencies cached_state = [''USD'', ''EUR'']"
  "cache_file cached_state = Holds (JDict [(''01.03.2024'', usd_payload)])"
  "requests cached_state = []"
  "sent cached_state = []"
  "clients cached_state = []"
  by (simp_all add: cached_state_def init_def)

text \<open>
  Claim C3. Let \<open>snapshot\<close> be the cache that a call of \<open>get_exchanges\<close> loads. No URL
  that the call asks of the provider is the URL of a date present in \<open>snapshot\<close>; every
  URL it asks is the URL of one of the requested days whose date is absent from
  \<open>snapshot\<close>; and when the call returns its table, the record of every day whose date is
  present in \<open>snapshot\<close> is the normalization of the payload that \<open>snapshot\<close> holds for it.
  The provider is asked once per \<open>request\<close>, in the order of \<open>requests\<close>.
\<close>

theorem cached_dates_not_fetched:
  assumes "get_exchanges e days s = (r, s')" and "load_json_sync s = Inr snapshot"
  shows "(\<forall>d. contains snapshot d = Inr True \<longrightarrow> BASE_URL @ d \<notin> set (new_requests s s'))
    \<and> (\<forall>u\<in>set (new_requests s s'). \<exists>i d. i < nat days \<and> date_key e i = Inr d
          \<and> u = BASE_URL @ d \<and> contains snapshot d = Inr False)
    \<and> (\<forall>h result. r = Inr (h, result) \<longrightarrow>
          (\<forall>en\<in>set result. contains snapshot (fst en) = Inr True \<longrightarrow>
             (\<exists>v. getitem snapshot (fst en) = Inr v \<and> normalize (currencies s) v = Inr (snd en))))"
proof -
  from get_exchanges_inv [OF assms(1)] obtain new where new:
    "s' = s\<lparr>cache_file := cache_file s', requests := requests s @ new\<rparr>"
    "\<forall>u\<in>set new. \<exists>i d snap. i < nat days \<and> date_key e i = Inr d \<and> u = BASE_URL @ d
          \<and> load_json_sync s = Inr snap \<and> contains snap d = Inr False"
    "\<forall>h result. r = Inr (h, result) \<longrightarrow> h = currencies s
          \<and> map (\<lambda>en. Inr (fst en)) result = map (date_key e) [0..<nat days]
          \<and> (\<exists>snap c'. load_json_sync s = Inr snap \<and> cache_file s' = Holds c' \<and> grown snap c'
                \<and> (\<forall>u\<in>set new. \<exists>d v. u = BASE_URL @ d \<and> request_result e u = Inr v
                      \<and> entries c' d = Some v)
                \<and> (\<forall>en\<in>set result. \<exists>v. getitem c' (fst en) = Inr v
                      \<and> normalize (currencies s) v = Inr (snd en)))"
    by blast
  from new(1) have eq: "new_requests s s' = new"
    by (auto dest: frame_fields intro: new_requests_append)
  have absent: "\<forall>u\<in>set new. \<exists>i d. i < nat days \<and> date_key e i = Inr d
          \<and> u = BASE_URL @ d \<and> contains snapshot d = Inr False"
    using new(2) assms(2) by fastforce
  have cached: "\<forall>d. contains snapshot d = Inr True \<longrightarrow> BASE_URL @ d \<notin> set new"
  proof (intro allI impI notI)
    fix d assume present: "contains snapshot d = Inr True" and "BASE_URL @ d \<in> set new"
    with absent obtain d' where "BASE_URL @ d = BASE_URL @ d'" "contains snapshot d' = Inr False"
      by blast
    with present show False by simp
  qed
  have reused: "\<forall>h result. r = Inr (h, result) \<longrightarrow>
          (\<forall>en\<in>set result. contains snapshot (fst en) = Inr True \<longrightarrow>
             (\<exists>v. getitem snapshot (fst en) = Inr v \<and> normalize (currencies s) v = Inr (snd en)))"
  proof (intro allI impI ballI)
    fix h result en
    assume r: "r = Inr (h, result)" and en: "en \<in> set result"
      and present: "contains snapshot (fst en) = Inr True"
    from new(3) r assms(2) obtain c' where c': "grown snapshot c'"
      "\<forall>en\<in>set result. \<exists>v. getitem c' (fst en) = Inr v \<and> normalize (currencies s) v = Inr (snd en)"
      by auto
    from c'(2) en obtain v where v: "getitem c' (fst en) = Inr v"
      "normalize (currencies s) v = Inr (snd en)"
      by blast
    from c'(1) present v(1) have "getitem snapshot (fst en) = Inr v"
      by (rule grown_getitem_back)
    with v(2) show "\<exists>v. getitem snapshot (fst en) = Inr v \<and> normalize (currencies s) v = Inr (snd en)"
      by blast
  qed
  show ?thesis
    unfolding eq by (intro conjI) (rule cached absent reused)+
qed

theorem cached_dates_not_fetched_witness:
  "contains (JDict [(''01.03.2024'', usd_payload)]) ''01.03.2024'' = Inr True
   \<and> BASE_URL @ ''01.03.2024''
        \<notin> set (new_requests cached_state (snd (get_exchanges demo_env 2 cached_state)))
   \<and> new_requests cached_state (snd (get_exchanges demo_env 2 cached_state))
        = [BASE_URL @ ''29.02.2024'']"
proof -
  have run: "get_exchanges demo_env 2 cached_state
      = (fst (get_exchanges demo_env 2 cached_state), snd (get_exchanges demo_env 2 cached_state))"
    by simp
  have load: "load_json_sync cached_state = Inr (JDict [(''01.03.2024'', usd_payload)])"
    by (simp add: load_json_sync_def cached_state_fields)
  have present: "contains (JDict [(''01.03.2024'', usd_payload)]) ''01.03.2024'' = Inr True"
    by (simp add: contains_def)
  have asked: "new_requests cached_state (snd (get_exchanges demo_env 2 cached_state))
        = [BASE_URL @ ''29.02.2024'']"
    by (simp add: demo_run new_requests_def cached_state_fields)
  from cached_dates_not_fetched [OF run load]
  have "\<forall>d. contains (JDict [(''01.03.2024'', usd_payload)]) d = Inr True \<longrightarrow>
      BASE_URL @ d \<notin> set (new_requests cached_state (snd (get_exchanges demo_env 2 cached_state)))"
    by (rule conjunct1)
  from this [rule_format, OF present] present asked show ?thesis
    by (intro conjI)
qed

text \<open>
  Claim C4. After a call of \<open>get_exchanges\<close> that returns its table, the cache file
  holds every entry it held before the call, with the same payload, and for every URL
  asked of the provider during the call it holds the payload fetched, under the date of
  that URL. (One call, running from its load to its save without another call in
  between.)
\<close>

theorem cache_only_grows:
  assumes "get_exchanges e days s = (Inr (h, result), s')"
  shows "stored (cache_file s) \<subseteq>\<^sub>m stored (cache_file s')
    \<and> (\<forall>u\<in>set (new_requests s s'). \<exists>d v. u = BASE_URL @ d \<and> request_result e u = Inr v
          \<and> stored (cache_file s') d = Some v)"
proof -
  define r :: "py_error + string list \<times> (string \<times> rates) list" where "r = Inr (h, result)"
  with assms have run: "get_exchanges e days s = (r, s')" by simp
  from get_exchanges_inv [OF run] obtain new where frame:
    "s' = s\<lparr>cache_file := cache_file s', requests := requests s @ new\<rparr>"
    and succ: "\<forall>h' result'. r = Inr (h', result') \<longrightarrow> h' = currencies s
          \<and> map (\<lambda>en. Inr (fst en)) result' = map (date_key e) [0..<nat days]
          \<and> (\<exists>snap c'. load_json_sync s = Inr snap \<and> cache_file s' = Holds c' \<and> grown snap c'
                \<and> (\<forall>u\<in>set new. \<exists>d v. u = BASE_URL @ d \<and> request_result e u = Inr v
                      \<and> entries c' d = Some v)
                \<and> (\<forall>en\<in>set result'. \<exists>v. getitem c' (fst en) = Inr v
                      \<and> normalize (currencies s) v = Inr (snd en)))"
    by blast
  from succ [rule_format, OF r_def] obtain snap c' where new:
    "load_json_sync s = Inr snap" "cache_file s' = Holds c'" "grown snap c'"
    "\<forall>u\<in>set new. \<exists>d v. u = BASE_URL @ d \<and> request_result e u = Inr v \<and> entries c' d = Some v"
    by blast
  from frame have eq: "new_requests s s' = new"
    by (auto dest: frame_fields intro: new_requests_append)
  from new(1) have before: "stored (cache_file s) = entries snap" by (rule load_stored)
  from new(2) have after: "stored (cache_file s') = entries c'" by (simp add: stored_def)
  from new(3) have "entries snap \<subseteq>\<^sub>m entries c'" by (rule grown_map_le)
  with new(4) show ?thesis
    unfolding eq before after by simp
qed

theorem cache_only_grows_witness:
  "stored (cache_file cached_state) ''01.03.2024'' = Some usd_payload
   \<and> stored (cache_file (snd (get_exchanges demo_env 2 cached_state))) ''01.03.2024''
        = Some usd_payload
   \<and> stored (cache_file (snd (get_exchanges demo_env 2 cached_state))) ''29.02.2024''
        = Some usd_payload
   \<and> stored (cache_file cached_state) ''29.02.2024'' = None"
proof -
  obtain h result where
    run: "get_exchanges demo_env 2 cached_state
      = (Inr (h, result), snd (get_exchanges demo_env 2 cached_state))"
    by (simp add: demo_run)
  have before: "stored (cache_file cached_state) ''01.03.2024'' = Some usd_payload"
    "stored (cache_file cached_state) ''29.02.2024'' = None"
    by (simp_all add: stored_def entries_def cached_state_fields)
  have asked: "new_requests cached_state (snd (get_exchanges demo_env 2 cached_state))
        = [BASE_URL @ ''29.02.2024'']"
    by (simp add: demo_run new_requests_def cached_state_fields)
  have fetched: "request_result demo_env (BASE_URL @ ''29.02.2024'') = Inr usd_payload"
    by (simp add: request_result_def demo_env_def)
  note grows = cache_only_grows [OF run]
  from grows [THEN conjunct1] before(1)
  have kept: "stored (cache_file (snd (get_exchanges demo_env 2 cached_state))) ''01.03.2024''
        = Some usd_payload"
    by (rule map_le_Some)
  from grows [THEN conjunct2] asked
  have "\<exists>d v. BASE_URL @ ''29.02.2024'' = BASE_URL @ d
      \<and> request_result demo_env (BASE_URL @ ''29.02.2024'') = Inr v
      \<and> stored (cache_file (snd (get_exchanges demo_env 2 cached_state))) d = Some v"
    by simp
  then obtain d v where "BASE_URL @ ''29.02.2024'' = BASE_URL @ d"
    "request_result demo_env (BASE_URL @ ''29.02.2024'') = Inr v"
    "stored (cache_file (snd (get_exchanges demo_env 2 cached_state))) d = Some v"
    by blast
  with fetched
  have added: "stored (cache_file (snd (get_exchanges demo_env 2 cached_state))) ''29.02.2024''
        = Some usd_payload"
    by simp
  from before(1) kept added before(2) show ?thesis
    by (intro conjI)
qed

text \<open>
  Claim C10. A call of \<open>get_exchanges\<close> leaves the tracked currencies as they were,
  whether it returns or raises; the headers it returns are that list; and the state
  after the call differs from the state before it at most in the cache file (and in the
  list of the URLs asked of the provider).
\<close>

theorem get_exchanges_keeps_currencies:
  "currencies (snd (get_exchanges e days s)) = currencies s
   \<and> (\<forall>h result. fst (get_exchanges e days s) = Inr (h, result) \<longrightarrow> h = currencies s)
   \<and> snd (get_exchanges e days s)
       = s\<lparr>cache_file := cache_file (snd (get_exchanges e days s)),
            requests := requests (snd (get_exchanges e days s))\<rparr>"
proof -
  obtain r s' where run: "get_exchanges e days s = (r, s')"
    by (cases "get_exchanges e days s")
  from get_exchanges_inv [OF run] obtain new where new:
    "s' = s\<lparr>cache_file := cache_file s', requests := requests s @ new\<rparr>"
    "\<forall>h result. r = Inr (h, result) \<longrightarrow> h = currencies s"
    by blast
  from new(1) have "currencies s' = currencies s" and "requests s' = requests s @ new"
    by (auto dest: frame_fields)
  with new(1) have "currencies s' = currencies s"
    and "s' = s\<lparr>cache_file := cache_file s', requests := requests s'\<rparr>"
    by simp_all
  with run new(2) show ?thesis by simp
qed

theorem get_exchanges_keeps_currencies_witness:
  "currencies cached_state = [''USD'', ''EUR'']
   \<and> currencies (snd (get_exchanges demo_env 2 cached_state)) = [''USD'', ''EUR'']
   \<and> map_sum id fst (fst (get_exchanges demo_env 2 cached_state)) = Inr [''USD'', ''EUR'']"
proof -
  obtain h result where run: "fst (get_exchanges demo_env 2 cached_state) = Inr (h, result)"
    by (simp add: demo_run)
  from get_exchanges_keeps_currencies [of demo_env 2 cached_state] run cached_state_fields(1)
  show ?thesis
    by simp
qed

subsection \<open>Broadcast\<close>

lemma register_frame:
  "currencies (register ws s) = currencies s \<and> cache_file (register ws s) = cache_file s
   \<and> requests (register ws s) = requests s \<and> sent (register ws s) = sent s
   \<and> log_exchange (register ws s) = log_exchange s"
  by (simp add: register_def)

lemma fold_register_frame:
  "currencies (fold register js s) = currencies s \<and> cache_file (fold register js s) = cache_file s
   \<and> requests (fold register js s) = requests s \<and> sent (fold register js s) = sent s
   \<and> log_exchange (fold register js s) = log_exchange s"
  by (induction js arbitrary: s) (simp_all add: register_frame)

text \<open>
  Whatever happens during the delivery, it hands the message to the first \<open>k\<close>
  connections of the iteration and touches nothing but the registry; the only exception
  it raises is \<open>RuntimeError\<close>.
\<close>

lemma deliver_frame:
  "deliver n cs joins message s = (r, s') \<Longrightarrow>
   (\<exists>k\<le>length cs. sent s' = sent s @ map (\<lambda>c. (c, message)) (take k cs))
   \<and> currencies s' = currencies s \<and> cache_file s' = cache_file s \<and> requests s' = requests s
   \<and> log_exchange s' = log_exchange s \<and> (r = None \<or> r = Some RuntimeError)"
proof (induction cs arbitrary: joins s)
  case Nil
  then show ?case by (auto split: if_splits)
next
  case (Cons c cs)
  show ?case
  proof (cases "length (clients s) = n")
    case False
    with Cons.prems have "r = Some RuntimeError" "s' = s" by auto
    then show ?thesis by (auto intro: exI [of _ 0])
  next
    case True
    define s1 where "s1 = fold register (case joins of [] \<Rightarrow> [] | j # _ \<Rightarrow> j) (send c message s)"
    from True Cons.prems have rest: "deliver n cs (tl joins) message s1 = (r, s')"
      by (simp add: s1_def)
    have s1: "sent s1 = sent s @ [(c, message)]" "currencies s1 = currencies s"
      "cache_file s1 = cache_file s" "requests s1 = requests s" "log_exchange s1 = log_exchange s"
      by (simp_all add: s1_def fold_register_frame send_def)
    from Cons.IH [OF rest] obtain k where k: "k \<le> length cs"
      "sent s' = sent s1 @ map (\<lambda>c. (c, message)) (take k cs)"
      and others: "currencies s' = currencies s1" "cache_file s' = cache_file s1"
      "requests s' = requests s1" "log_exchange s' = log_exchange s1"
      "r = None \<or> r = Some RuntimeError"
      by blast
    from k s1(1) have "Suc k \<le> length (c # cs)"
      "sent s' = sent s @ map (\<lambda>c. (c, message)) (take (Suc k) (c # cs))"
      by simp_all
    then have "\<exists>k\<le>length (c # cs). sent s' = sent s @ map (\<lambda>c. (c, message)) (take k (c # cs))"
      by blast
    with others s1 show ?thesis by simp
  qed
qed


lemma send_to_clients_frame:
  "send_to_clients joins message s = (r, s') \<Longrightarrow>
   (\<exists>k\<le>length (clients s). sent s' = sent s @ map (\<lambda>c. (c, message)) (take k (clients s)))
   \<and> currencies s' = currencies s \<and> cache_file s' = cache_file s \<and> requests s' = requests s
   \<and> log_exchange s' = log_exchange s \<and> (r = None \<or> r = Some RuntimeError)"
proof (cases "clients s = []")
  case True
  assume "send_to_clients joins message s = (r, s')"
  with True have "r = None" "s' = s" by (simp_all add: send_to_clients_def)
  then show ?thesis by (auto intro: exI [of _ 0])
next
  case False
  assume "send_to_clients joins message s = (r, s')"
  with False have "deliver (length (clients s)) (clients s) joins message s = (r, s')"
    by (simp add: send_to_clients_def)
  then show ?thesis by (rule deliver_frame)
qed





subsection \<open>Command dispatch\<close>

lemma currency_ops_frame:
  "cache_file (snd (add_currency c s)) = cache_file s \<and> requests (snd (add_currency c s)) = requests s
   \<and> sent (snd (add_currency c s)) = sent s \<and> clients (snd (add_currency c s)) = clients s
   \<and> cache_file (snd (remove_currency c s)) = cache_file s
   \<and> requests (snd (remove_currency c s)) = requests s
   \<and> sent (snd (remove_currency c s)) = sent s \<and> clients (snd (remove_currency c s)) = clients s"
  by (simp add: add_currency_def remove_currency_def Let_def)

text \<open>The five ways in which the body of the \<open>try\<close> statement ends.\<close>

lemma exchange_command_cases:
  assumes "exchange_command e ws message s = (r, s')"
  obtains
    (add) c where "r = Inr ()" "s' = send ws (fst (add_currency c s)) (snd (add_currency c s))"
  | (remove) c where "r = Inr ()"
      "s' = send ws (fst (remove_currency c s)) (snd (remove_currency c s))"
  | (bad_days) err where "r = Inl err" "s' = s"
  | (failed) days err where "get_exchanges e days s = (Inl err, s')" "r = Inl err"
  | (shown) days h result s0 where "get_exchanges e days s = (Inr (h, result), s0)" "r = Inr ()"
      "s' = send ws (render e h result) s0"
proof -
  let ?args = "py_split message"
  consider (a) "2 < length ?args \<and> py_lower (?args ! 1) = ''add''"
    | (b) "\<not> (2 < length ?args \<and> py_lower (?args ! 1) = ''add'')"
          "2 < length ?args \<and> py_lower (?args ! 1) = ''remove''"
    | (c) "\<not> (2 < length ?args \<and> py_lower (?args ! 1) = ''add'')"
          "\<not> (2 < length ?args \<and> py_lower (?args ! 1) = ''remove'')"
    by blast
  then show thesis
  proof cases
    case a
    with assms have "r = Inr ()"
      "s' = send ws (fst (add_currency (py_upper (?args ! 2)) s))
                 (snd (add_currency (py_upper (?args ! 2)) s))"
      by (auto simp: exchange_command_def Let_def split: prod.splits)
    then show thesis by (rule add)
  next
    case b
    with assms have "r = Inr ()"
      "s' = send ws (fst (remove_currency (py_upper (?args ! 2)) s))
                 (snd (remove_currency (py_upper (?args ! 2)) s))"
      by (auto simp: exchange_command_def Let_def split: prod.splits)
    then show thesis by (rule remove)
  next
    case c
    with assms have sh: "show_exchange e ws ?args s = (r, s')"
      by (auto simp: exchange_command_def Let_def)
    show thesis
    proof (cases "requested_days ?args")
      case (Inl err)
      with sh have "r = Inl err" "s' = s" by (simp_all add: show_exchange_def)
      then show thesis by (rule bad_days)
    next
      case (Inr days)
      obtain r0 s0 where run: "get_exchanges e days s = (r0, s0)"
        by (cases "get_exchanges e days s")
      show thesis
      proof (cases r0)
        case (Inl err)
        with sh Inr run have "get_exchanges e days s = (Inl err, s')" "r = Inl err"
          by (simp_all add: show_exchange_def)
        then show thesis by (rule failed)
      next
        case r0: (Inr p)
        obtain h result where "p = (h, result)" by (cases p)
        with sh Inr run r0 have "get_exchanges e days s = (Inr (h, result), s0)" "r = Inr ()"
          "s' = send ws (render e h result) s0"
          by (simp_all add: show_exchange_def)
        then show thesis by (rule shown)
      qed
    qed
  qed
qed

lemma get_exchanges_frame:
  assumes "get_exchanges e days s = (r, s')"
  shows "currencies s' = currencies s \<and> clients s' = clients s \<and> sent s' = sent s
    \<and> log_exchange s' = log_exchange s \<and> requests s' = requests s @ new_requests s s'"
  using get_exchanges_new_requests [OF assms] by (auto dest: frame_fields)

lemma fetch_fails_raises: "fetch_fails (upstream e u) \<Longrightarrow> \<exists>x. request_result e u = Inl x"
  by (auto simp: fetch_fails_def request_result_def split: reply.splits)

lemma fetch_caught_HttpError:
  "fetch_caught (upstream e u) \<Longrightarrow> \<exists>a. request_result e u = Inl (HttpError a)"
  by (auto simp: fetch_caught_def request_result_def split: reply.splits)

lemma fetch_uncaught_other:
  "fetch_fails (upstream e u) \<Longrightarrow> \<not> fetch_caught (upstream e u) \<Longrightarrow>
   \<exists>cls. request_result e u = Inl (OtherException cls)"
  by (auto simp: fetch_fails_def fetch_caught_def request_result_def split: reply.splits)

lemma get_exchanges_failed_fetch:
  assumes "get_exchanges e days s = (r, s')" and "u \<in> set (new_requests s s')"
    and "request_result e u = Inl x"
  shows "r = Inl x \<and> cache_file s' = cache_file s"
proof -
  from get_exchanges_inv [OF assms(1)] obtain new where new:
    "s' = s\<lparr>cache_file := cache_file s', requests := requests s @ new\<rparr>"
    "\<forall>u\<in>set new. \<forall>x. request_result e u = Inl x \<longrightarrow> r = Inl x"
    "\<forall>x. r = Inl x \<longrightarrow> cache_file s' = cache_file s"
    by blast
  from new(1) have "new_requests s s' = new"
    by (auto dest: frame_fields intro: new_requests_append)
  with assms(2,3) new(2) have "r = Inl x" by blast
  with new(3) show ?thesis by simp
qed

text \<open>
  Claim C1 as stated fails for a connection failure that \<open>request\<close> does not handle.
  The cache file is missing and the server drops the connection of the first fetch
  (\<open>ServerDisconnectedError\<close>): the exception is no \<open>HttpError\<close>, it leaves
  \<open>handle_messages\<close>, and the requester is sent nothing.
\<close>

theorem dropped_connection_escapes:
  "fetch_fails (upstream drop_env (BASE_URL @ ''01.03.2024''))
   \<and> handle_message drop_env [] ann ''exchange'' (init Absent)
       = (Some (OtherException ''ServerDisconnectedError''),
          (init Absent)\<lparr>requests := [BASE_URL @ ''01.03.2024'']\<rparr>)
   \<and> sent ((init Absent)\<lparr>requests := [BASE_URL @ ''01.03.2024'']\<rparr>) = []"
  by code_simp

text \<open>
  Claim C1, as the code has it. While a line is handled, let one of the URLs asked of
  the provider get a failed fetch, of whatever kind. Then the line was a show command
  whose \<open>get_exchanges\<close> raised: no table is sent, and the cache file is what it was
  before the line, whatever was fetched earlier in the call. When the failure is a
  status other than 200, a connection that could not be made (\<open>ClientConnectorError\<close>)
  or an invalid URL, the requester is sent \<open>Something went wrong\<close> and nothing else, and
  the loop goes on; after any other failure the exception leaves \<open>handle_messages\<close> and
  nothing is sent.
\<close>

theorem failed_fetch_aborts:
  assumes "handle_message e joins ws message s = (out, s')"
    and "u \<in> set (new_requests s s')" and "fetch_fails (upstream e u)"
  shows "cache_file s' = cache_file s
    \<and> (\<exists>x s1. exchange_command e ws message s = (Inl x, s1))
    \<and> (fetch_caught (upstream e u) \<longrightarrow>
          out = None \<and> sent s' = sent s @ [(ws, ''Something went wrong'')])
    \<and> (\<not> fetch_caught (upstream e u) \<longrightarrow>
          (\<exists>cls. out = Some (OtherException cls)) \<and> sent s' = sent s)"
proof -
  from assms(3) obtain x where x: "request_result e u = Inl x"
    by (auto dest: fetch_fails_raises)
  show ?thesis
  proof (cases "prefix ''exchange'' message")
    case False
    with assms(1) have "send_to_clients joins (name ws @ '': '' @ message) s = (out, s')"
      by (simp add: handle_message_def)
    then have "requests s' = requests s" by (auto dest: send_to_clients_frame)
    with assms(2) show ?thesis by (simp add: new_requests_def)
  next
    case True
    obtain r s1 where cmd: "exchange_command e ws message s = (r, s1)"
      by (cases "exchange_command e ws message s")
    have same: "requests s' = requests s1"
      using assms(1) True cmd
      by (auto simp: handle_message_def write_log_def send_def split: sum.splits py_error.splits)
    with assms(2) have u: "u \<in> set (new_requests s s1)" by (simp add: new_requests_def)
    from cmd show ?thesis
    proof (cases rule: exchange_command_cases)
      case (add c)
      with u show ?thesis by (simp add: new_requests_def send_def currency_ops_frame)
    next
      case (remove c)
      with u show ?thesis by (simp add: new_requests_def send_def currency_ops_frame)
    next
      case (bad_days err)
      with u show ?thesis by (simp add: new_requests_def)
    next
      case (failed days err)
      from get_exchanges_failed_fetch [OF failed(1) u x] failed(2)
      have r: "r = Inl x" and kept: "cache_file s1 = cache_file s" by simp_all
      from failed(1) have sent: "sent s1 = sent s" by (auto dest: get_exchanges_frame)
      have aborted: "\<exists>x s1. exchange_command e ws message s = (Inl x, s1)"
        using cmd r by blast
      show ?thesis
      proof (cases "fetch_caught (upstream e u)")
        case caught: True
        from fetch_caught_HttpError [OF caught] x obtain a where a: "x = HttpError a"
          by auto
        from assms(1) True cmd r a
        have "out = None" "s' = write_log e ws message (send ws ''Something went wrong'' s1)"
          by (simp_all add: handle_message_def)
        with kept sent aborted caught show ?thesis by (simp add: write_log_def send_def)
      next
        case uncaught: False
        from fetch_uncaught_other [OF assms(3) uncaught] x obtain cls where cls: "x = OtherException cls"
          by auto
        from assms(1) True cmd r cls have "out = Some (OtherException cls)" "s' = s1"
          by (simp_all add: handle_message_def)
        with kept sent aborted uncaught show ?thesis by simp
      qed
    next
      case (shown days h result s0)
      have "requests s1 = requests s0" using shown(3) by (simp add: send_def)
      with u have "u \<in> set (new_requests s s0)" by (simp add: new_requests_def)
      from get_exchanges_failed_fetch [OF shown(1) this x] show ?thesis by simp
    qed
  qed
qed

lemma down_run:
  "handle_message down_env [] ann ''exchange 2'' cached_state =
     (None, cached_state
        \<lparr>requests := [BASE_URL @ ''29.02.2024''],
         sent := [(ann, ''Something went wrong'')],
         log_exchange := [''2024-03-01 12:00:00 10.0.0.1: Ann: exchange 2'' @ [CHR 0x0A]]\<rparr>)"
  by code_simp

lemma init_fields:
  "currencies (init f) = [''USD'', ''EUR'']" "cache_file (init f) = f" "requests (init f) = []"
  "clients (init f) = []" "sent (init f) = []" "log_exchange (init f) = []"
  by (simp_all add: init_def)

text \<open>
  An example: the cache file is missing, the first day is fetched, the fetch of the
  second day gets status 500. Nothing is saved.
\<close>

lemma flaky_run:
  "handle_message flaky_env [] ann ''exchange 2'' (init Absent) =
     (None, (init Absent)
        \<lparr>requests := [BASE_URL @ ''01.03.2024'', BASE_URL @ ''29.02.2024''],
         sent := [(ann, ''Something went wrong'')],
         log_exchange := [''2024-03-01 12:00:00 10.0.0.1: Ann: exchange 2'' @ [CHR 0x0A]]\<rparr>)"
  by code_simp

theorem failed_fetch_aborts_witness:
  "BASE_URL @ ''29.02.2024''
     \<in> set (new_requests (init Absent) (snd (handle_message flaky_env [] ann ''exchange 2'' (init Absent))))
   \<and> fetch_fails (upstream flaky_env (BASE_URL @ ''29.02.2024''))
   \<and> fetch_caught (upstream flaky_env (BASE_URL @ ''29.02.2024''))
   \<and> \<not> fetch_fails (upstream flaky_env (BASE_URL @ ''01.03.2024''))
   \<and> fst (handle_message flaky_env [] ann ''exchange 2'' (init Absent)) = None
   \<and> sent (snd (handle_message flaky_env [] ann ''exchange 2'' (init Absent)))
       = [(ann, ''Something went wrong'')]
   \<and> cache_file (snd (handle_message flaky_env [] ann ''exchange 2'' (init Absent))) = Absent"
proof -
  have run: "handle_message flaky_env [] ann ''exchange 2'' (init Absent)
      = (fst (handle_message flaky_env [] ann ''exchange 2'' (init Absent)),
         snd (handle_message flaky_env [] ann ''exchange 2'' (init Absent)))"
    by simp
  have asked: "BASE_URL @ ''29.02.2024''
     \<in> set (new_requests (init Absent) (snd (handle_message flaky_env [] ann ''exchange 2'' (init Absent))))"
    by (simp add: flaky_run new_requests_def init_fields)
  have fails: "fetch_fails (upstream flaky_env (BASE_URL @ ''29.02.2024''))"
    by (simp add: fetch_fails_def flaky_env_def demo_env_def)
  have caught: "fetch_caught (upstream flaky_env (BASE_URL @ ''29.02.2024''))"
    by (simp add: fetch_caught_def flaky_env_def demo_env_def)
  have first: "\<not> fetch_fails (upstream flaky_env (BASE_URL @ ''01.03.2024''))"
    by (simp add: fetch_fails_def flaky_env_def demo_env_def)
  from failed_fetch_aborts [OF run asked fails] asked fails caught first show ?thesis
    by (simp add: init_fields)
qed

text \<open>
  Claim C5 as stated fails: an exception that is not \<open>HttpError\<close> leaves
  \<open>handle_messages\<close>. With a cache file that \<open>json.load\<close> cannot parse it is
  \<open>JSONDecodeError\<close>; with a 200 response whose body has no \<open>exchangeRate\<close> it is
  \<open>KeyError\<close>.
\<close>

theorem other_errors_escape:
  "fst (handle_message demo_env [] ann ''exchange'' (init Garbled)) = Some JSONDecodeError
   \<and> fst (handle_message bare_env [] ann ''exchange'' (init Absent)) = Some (KeyError ''exchangeRate'')"
  by code_simp

text \<open>
  Claim C5, as the code has it. No \<open>HttpError\<close> leaves the handling of a line: when the
  body of the \<open>try\<close> statement raises \<open>HttpError\<close> (a fetch that failed), the session is
  sent \<open>Something went wrong\<close>, the line is logged and the loop goes on.
\<close>

theorem http_errors_caught:
  assumes "handle_message e joins ws message s = (out, s')"
  shows "(\<forall>a. out \<noteq> Some (HttpError a))
    \<and> (\<forall>a s1. prefix ''exchange'' message \<and> exchange_command e ws message s = (Inl (HttpError a), s1)
          \<longrightarrow> out = None \<and> s' = write_log e ws message (send ws ''Something went wrong'' s1))"
proof (cases "prefix ''exchange'' message")
  case False
  with assms have "send_to_clients joins (name ws @ '': '' @ message) s = (out, s')"
    by (simp add: handle_message_def)
  then have "out = None \<or> out = Some RuntimeError" by (auto dest: send_to_clients_frame)
  with False show ?thesis by auto
next
  case True
  with assms show ?thesis
    by (auto simp: handle_message_def split: prod.splits sum.splits py_error.splits)
qed

theorem http_errors_caught_witness:
  "prefix ''exchange'' ''exchange 2''
   \<and> fst (exchange_command down_env ann ''exchange 2'' cached_state)
       = Inl (HttpError [''Error status: 500 for '' @ BASE_URL @ ''29.02.2024''])
   \<and> fst (handle_message down_env [] ann ''exchange 2'' cached_state) = None
   \<and> sent (snd (handle_message down_env [] ann ''exchange 2'' cached_state))
       = [(ann, ''Something went wrong'')]"
proof -
  have run: "handle_message down_env [] ann ''exchange 2'' cached_state
      = (fst (handle_message down_env [] ann ''exchange 2'' cached_state),
         snd (handle_message down_env [] ann ''exchange 2'' cached_state))"
    by simp
  have pre: "prefix ''exchange'' ''exchange 2''" by simp
  have cmd: "fst (exchange_command down_env ann ''exchange 2'' cached_state)
       = Inl (HttpError [''Error status: 500 for '' @ BASE_URL @ ''29.02.2024''])"
    by code_simp
  then have cmd': "exchange_command down_env ann ''exchange 2'' cached_state
      = (Inl (HttpError [''Error status: 500 for '' @ BASE_URL @ ''29.02.2024'']),
         snd (exchange_command down_env ann ''exchange 2'' cached_state))"
    by (cases "exchange_command down_env ann ''exchange 2'' cached_state") simp
  from http_errors_caught [OF run] pre cmd'
  have "fst (handle_message down_env [] ann ''exchange 2'' cached_state) = None"
    by blast
  with pre cmd show ?thesis by (simp add: down_run)
qed

lemma currency_ops_log:
  "log_exchange (snd (add_currency c s)) = log_exchange s
   \<and> log_exchange (snd (remove_currency c s)) = log_exchange s"
  by (simp add: add_currency_def remove_currency_def Let_def)

text \<open>What the body of the \<open>try\<close> statement leaves of the state, however it ends.\<close>

lemma exchange_command_frame:
  assumes "exchange_command e ws message s = (r, s1)"
  shows "clients s1 = clients s \<and> log_exchange s1 = log_exchange s
    \<and> (case r of Inl err \<Rightarrow> sent s1 = sent s | Inr u \<Rightarrow> \<exists>reply. sent s1 = sent s @ [(ws, reply)])"
  using assms
proof (cases rule: exchange_command_cases)
  case (add c)
  then show ?thesis by (simp add: send_def currency_ops_frame currency_ops_log)
next
  case (remove c)
  then show ?thesis by (simp add: send_def currency_ops_frame currency_ops_log)
next
  case (bad_days err)
  then show ?thesis by simp
next
  case (failed days err)
  from get_exchanges_frame [OF failed(1)] failed(2) show ?thesis by simp
next
  case (shown days h result s0)
  from get_exchanges_frame [OF shown(1)] shown(2,3) show ?thesis by (simp add: send_def)
qed

lemma exchange_command_branches:
  "(\<exists>c. exchange_command e ws message s
        = (Inr (), send ws (fst (add_currency c s)) (snd (add_currency c s))))
   \<or> (\<exists>c. exchange_command e ws message s
        = (Inr (), send ws (fst (remove_currency c s)) (snd (remove_currency c s))))
   \<or> exchange_command e ws message s = show_exchange e ws (py_split message) s"
  by (auto simp: exchange_command_def Let_def case_prod_beta)

text \<open>
  Claim C9. A line that does not start with the characters \<open>exchange\<close> is broadcast as
  it is, behind the name of the sender, and touches neither the tracked currencies, the
  cache file, the provider nor the exchange log. A line that starts with them is never
  broadcast: it runs as an add, a remove or a show command, at most one message is
  sent, to the requester, the registry is unchanged, and the line is logged when the
  loop goes on. (Starting with \<open>exchange\<close> is \<open>str.startswith\<close>: \<open>exchanges\<close> starts with it
  too.)
\<close>

theorem exchange_prefix_decides:
  assumes "handle_message e joins ws message s = (out, s')"
  shows "(\<not> prefix ''exchange'' message \<longrightarrow>
            (out, s') = send_to_clients joins (name ws @ '': '' @ message) s
            \<and> currencies s' = currencies s \<and> cache_file s' = cache_file s
            \<and> requests s' = requests s \<and> log_exchange s' = log_exchange s)
    \<and> (prefix ''exchange'' message \<longrightarrow>
            clients s' = clients s
            \<and> (sent s' = sent s \<or> (\<exists>reply. sent s' = sent s @ [(ws, reply)]))
            \<and> (out = None \<longrightarrow> log_exchange s' = log_exchange s @
                  [now e @ '' '' @ remote_address ws @ '': '' @ name ws @ '': '' @ message
                    @ [CHR 0x0A]])
            \<and> ((\<exists>c. exchange_command e ws message s
                   = (Inr (), send ws (fst (add_currency c s)) (snd (add_currency c s))))
               \<or> (\<exists>c. exchange_command e ws message s
                   = (Inr (), send ws (fst (remove_currency c s)) (snd (remove_currency c s))))
               \<or> exchange_command e ws message s = show_exchange e ws (py_split message) s))"
proof (cases "prefix ''exchange'' message")
  case False
  with assms have chat: "send_to_clients joins (name ws @ '': '' @ message) s = (out, s')"
    by (simp add: handle_message_def)
  from send_to_clients_frame [OF chat] chat False show ?thesis by simp
next
  case True
  obtain r s1 where cmd: "exchange_command e ws message s = (r, s1)"
    by (cases "exchange_command e ws message s")
  note frame = exchange_command_frame [OF cmd]
  have effect: "clients s' = clients s
      \<and> (sent s' = sent s \<or> (\<exists>reply. sent s' = sent s @ [(ws, reply)]))
      \<and> (out = None \<longrightarrow> log_exchange s' = log_exchange s @
            [now e @ '' '' @ remote_address ws @ '': '' @ name ws @ '': '' @ message @ [CHR 0x0A]])"
  proof (cases r)
    case (Inr u)
    with assms True cmd have "out = None" "s' = write_log e ws message s1"
      by (simp_all add: handle_message_def)
    with frame Inr show ?thesis by (auto simp: write_log_def)
  next
    case (Inl err)
    show ?thesis
    proof (cases "\<exists>a. err = HttpError a")
      case True
      with assms \<open>prefix ''exchange'' message\<close> cmd Inl
      have "out = None" "s' = write_log e ws message (send ws ''Something went wrong'' s1)"
        by (auto simp: handle_message_def)
      with frame Inl show ?thesis by (simp add: write_log_def send_def)
    next
      case False
      with assms \<open>prefix ''exchange'' message\<close> cmd Inl have "out = Some err" "s' = s1"
        by (cases err; simp add: handle_message_def)+
      with frame Inl show ?thesis by simp
    qed
  qed
  with True exchange_command_branches [of e ws message s] show ?thesis by simp
qed

lemma add_run:
  "handle_message demo_env [] ann ''exchange add gbp'' room =
     (None, room
        \<lparr>currencies := [''USD'', ''EUR'', ''GBP''],
         sent := [(ann, ''GBP was added. Current currencies: USD, EUR, GBP'')],
         log_exchange := [''2024-03-01 12:00:00 10.0.0.1: Ann: exchange add gbp'' @ [CHR 0x0A]]\<rparr>)"
  by code_simp

theorem exchange_prefix_decides_witness:
  "\<not> prefix ''exchange'' ''hi'' \<and> prefix ''exchange'' ''exchange add gbp''
   \<and> log_exchange (snd (handle_message demo_env [] ann ''hi'' room)) = []
   \<and> requests (snd (handle_message demo_env [] ann ''hi'' room)) = []
   \<and> clients (snd (handle_message demo_env [] ann ''exchange add gbp'' room)) = [ann, bob, cyd]
   \<and> log_exchange (snd (handle_message demo_env [] ann ''exchange add gbp'' room))
       = [''2024-03-01 12:00:00 10.0.0.1: Ann: exchange add gbp'' @ [CHR 0x0A]]
   \<and> sent (snd (handle_message demo_env [] ann ''exchange add gbp'' room))
       = [(ann, ''GBP was added. Current currencies: USD, EUR, GBP'')]"
proof -
  have chat: "handle_message demo_env [] ann ''hi'' room
      = (fst (handle_message demo_env [] ann ''hi'' room),
         snd (handle_message demo_env [] ann ''hi'' room))"
    by simp
  have cmd: "handle_message demo_env [] ann ''exchange add gbp'' room
      = (fst (handle_message demo_env [] ann ''exchange add gbp'' room),
         snd (handle_message demo_env [] ann ''exchange add gbp'' room))"
    by simp
  have 1: "\<not> prefix ''exchange'' ''hi''" and 2: "prefix ''exchange'' ''exchange add gbp''"
    by simp_all
  have start: "log_exchange room = []" "requests room = []" "clients room = [ann, bob, cyd]"
    by (simp_all add: room_def init_def)
  have went_on: "fst (handle_message demo_env [] ann ''exchange add gbp'' room) = None"
    by (simp add: add_run)
  have reply: "sent (snd (handle_message demo_env [] ann ''exchange add gbp'' room))
       = [(ann, ''GBP was added. Current currencies: USD, EUR, GBP'')]"
    by (simp add: add_run)
  note quiet = exchange_prefix_decides [OF chat, THEN conjunct1, rule_format, OF 1]
  from quiet have "log_exchange (snd (handle_message demo_env [] ann ''hi'' room)) = log_exchange room"
    "requests (snd (handle_message demo_env [] ann ''hi'' room)) = requests room"
    by blast+
  with start
  have a: "log_exchange (snd (handle_message demo_env [] ann ''hi'' room)) = []"
    "requests (snd (handle_message demo_env [] ann ''hi'' room)) = []"
    by simp_all
  from exchange_prefix_decides [OF cmd] 2 start went_on
  have b: "clients (snd (handle_message demo_env [] ann ''exchange add gbp'' room)) = [ann, bob, cyd]"
    "log_exchange (snd (handle_message demo_env [] ann ''exchange add gbp'' room))
       = [''2024-03-01 12:00:00 10.0.0.1: Ann: exchange add gbp'' @ [CHR 0x0A]]"
    by (simp_all add: demo_env_def ann_def)
  from 1 2 a b reply show ?thesis by (intro conjI)
qed

text \<open>The invariant of the tracked currencies holds along a whole session.\<close>

lemma handle_message_currencies:
  assumes "handle_message e joins ws message s = (out, s')"
  shows "tracked_ok s \<Longrightarrow> tracked_ok s'"
proof (cases "prefix ''exchange'' message")
  case False
  with assms have "send_to_clients joins (name ws @ '': '' @ message) s = (out, s')"
    by (simp add: handle_message_def)
  then have "currencies s' = currencies s" by (auto dest: send_to_clients_frame)
  then show "tracked_ok s \<Longrightarrow> tracked_ok s'" by (simp add: tracked_ok_def)
next
  case True
  assume ok: "tracked_ok s"
  obtain r s1 where cmd: "exchange_command e ws message s = (r, s1)"
    by (cases "exchange_command e ws message s")
  have same: "currencies s' = currencies s1"
    using assms True cmd
    by (auto simp: handle_message_def write_log_def send_def split: sum.splits py_error.splits)
  from cmd have "tracked_ok s1"
  proof (cases rule: exchange_command_cases)
    case (add c)
    with add_tracked [OF ok, of c] show ?thesis by (simp add: tracked_ok_def send_def)
  next
    case (remove c)
    with remove_tracked [OF ok, of c] show ?thesis by (simp add: tracked_ok_def send_def)
  next
    case (bad_days err)
    with ok show ?thesis by simp
  next
    case (failed days err)
    from get_exchanges_frame [OF failed(1)] ok show ?thesis by (simp add: tracked_ok_def)
  next
    case (shown days h result s0)
    from get_exchanges_frame [OF shown(1)] shown(3) ok show ?thesis
      by (simp add: tracked_ok_def send_def)
  qed
  with same show "tracked_ok s'" by (simp add: tracked_ok_def)
qed

lemma handle_messages_currencies:
  "tracked_ok s \<Longrightarrow> tracked_ok (snd (handle_messages e ws inbound s))"
proof (induction inbound arbitrary: s)
  case Nil
  then show ?case by simp
next
  case (Cons m inbound)
  obtain joins message where m: "m = (joins, message)" by (cases m)
  obtain out s1 where step: "handle_message e joins ws message s = (out, s1)"
    by (cases "handle_message e joins ws message s")
  from handle_message_currencies [OF step Cons.prems] have ok: "tracked_ok s1" .
  show ?case
  proof (cases out)
    case None
    with m step Cons.IH [OF ok] show ?thesis by simp
  next
    case (Some err)
    with m step ok show ?thesis by simp
  qed
qed

subsection \<open>The record of one day\<close>

lemma is_decimal_digit_char: "n < 10 \<Longrightarrow> is_decimal (digit_char n)"
  by (simp add: is_decimal_def digit_char_def)









lemma pad2_decimal: "m < 100 \<Longrightarrow> length (pad2 m) = 2 \<and> list_all is_decimal (pad2 m)"
proof -
  assume m: "m < 100"
  show ?thesis
  proof (cases "m < 10")
    case True
    then have "str_nat m = [digit_char m]" by (simp add: str_nat.simps [of m])
    with True show ?thesis
      by (simp add: pad2_def is_decimal_digit_char) (simp add: is_decimal_def)
  next
    case False
    with m have "m div 10 < 10" by simp
    then have "str_nat (m div 10) = [digit_char (m div 10)]"
      by (simp add: str_nat.simps [of "m div 10"])
    with False have "str_nat m = [digit_char (m div 10), digit_char (m mod 10)]"
      by (simp add: str_nat.simps [of m])
    with False \<open>m div 10 < 10\<close> show ?thesis
      by (simp add: pad2_def is_decimal_digit_char)
  qed
qed



























subsection \<open>The number of days of a show command\<close>

lemma requested_days_decimal:
  "1 < length args \<Longrightarrow> args ! 1 \<noteq> [] \<Longrightarrow> list_all is_decimal (args ! 1) \<Longrightarrow>
   length (args ! 1) \<le> 4300 \<Longrightarrow>
   requested_days args = Inr (min 10 (max 1 (decimal_value (args ! 1))))"
  by (auto simp: requested_days_def py_isdigit_def py_int_def is_digit_def list_all_iff)

lemma requested_days_default:
  "length args \<le> 1 \<or> \<not> py_isdigit (args ! 1) \<Longrightarrow> requested_days args = Inr 1"
  by (auto simp: requested_days_def)

lemma requested_days_range: "requested_days args = Inr days \<Longrightarrow> 1 \<le> days \<and> days \<le> 10"
  by (auto simp: requested_days_def split: if_splits sum.splits)

lemma get_exchanges_table:
  assumes "get_exchanges e days s = (Inr (h, result), s')"
  shows "length result = nat days \<and> (\<forall>i<nat days. date_key e i = Inr (fst (result ! i)))"
proof -
  define r :: "py_error + string list \<times> (string \<times> rates) list" where "r = Inr (h, result)"
  with assms have run: "get_exchanges e days s = (r, s')" by simp
  from get_exchanges_inv [OF run] obtain new where
    "\<forall>h' result'. r = Inr (h', result') \<longrightarrow> h' = currencies s
          \<and> map (\<lambda>en. Inr (fst en)) result' = map (date_key e) [0..<nat days]
          \<and> (\<exists>snap c'. load_json_sync s = Inr snap \<and> cache_file s' = Holds c' \<and> grown snap c'
                \<and> (\<forall>u\<in>set new. \<exists>d v. u = BASE_URL @ d \<and> request_result e u = Inr v
                      \<and> entries c' d = Some v)
                \<and> (\<forall>en\<in>set result'. \<exists>v. getitem c' (fst en) = Inr v
                      \<and> normalize (currencies s) v = Inr (snd en)))"
    by blast
  from this [rule_format, OF r_def]
  have keys: "map (\<lambda>en. Inr (fst en)) result = map (date_key e) [0..<nat days]"
    by simp
  from arg_cong [OF keys, of length] have len: "length result = nat days" by simp
  have "\<forall>i<nat days. date_key e i = Inr (fst (result ! i))"
  proof (intro allI impI)
    fix i assume i: "i < nat days"
    from arg_cong [OF keys, of "\<lambda>xs. xs ! i"] i len
    show "date_key e i = Inr (fst (result ! i))" by simp
  qed
  with len show ?thesis by simp
qed

text \<open>The key of a day has the form DD.MM.YYYY.\<close>

lemma str_nat_length:
  "length (str_nat n) = (if n < 10 then 1 else if n < 100 then 2 else if n < 1000 then 3
     else 1 + length (str_nat (n div 10)))"
proof -
  have one: "\<And>m. m < 10 \<Longrightarrow> length (str_nat m) = 1"
    by (simp add: str_nat.simps)
  have two: "\<And>m. 10 \<le> m \<Longrightarrow> m < 100 \<Longrightarrow> length (str_nat m) = 2"
  proof -
    fix m :: nat assume "10 \<le> m" "m < 100"
    then have "m div 10 < 10" by simp
    with one [of "m div 10"] \<open>10 \<le> m\<close> show "length (str_nat m) = 2"
      by (simp add: str_nat.simps [of m])
  qed
  have three: "\<And>m. 100 \<le> m \<Longrightarrow> m < 1000 \<Longrightarrow> length (str_nat m) = 3"
  proof -
    fix m :: nat assume "100 \<le> m" "m < 1000"
    then have "10 \<le> m div 10" "m div 10 < 100" by simp_all
    with two [of "m div 10"] \<open>100 \<le> m\<close> show "length (str_nat m) = 3"
      by (simp add: str_nat.simps [of m])
  qed
  show ?thesis
    using one [of n] two [of n] three [of n] by (simp add: str_nat.simps [of n])
qed

lemma strftime_dmY_shape:
  assumes "day d < 100" "month d < 100" "1000 \<le> year d" "year d < 10000"
  shows "length (strftime_dmY d) = 10 \<and> strftime_dmY d ! 2 = CHR ''.'' \<and> strftime_dmY d ! 5 = CHR ''.''"
proof -
  from assms(1) have dd: "length (pad2 (day d)) = 2" by (simp add: pad2_decimal)
  from assms(2) have mm: "length (pad2 (month d)) = 2" by (simp add: pad2_decimal)
  from assms(3,4) have "100 \<le> year d div 10" "year d div 10 < 1000" by simp_all
  then have "length (str_nat (year d div 10)) = 3" by (simp add: str_nat_length)
  with assms(3) have "length (str_nat (year d)) = 4" by (simp add: str_nat_length [of "year d"])
  then have yy: "length (pad4 (year d)) = 4" by (simp add: pad4_def)
  obtain a b where ab: "pad2 (day d) = [a, b]"
    using dd by (cases "pad2 (day d)"; cases "tl (pad2 (day d))") auto
  obtain c e where ce: "pad2 (month d) = [c, e]"
    using mm by (cases "pad2 (month d)"; cases "tl (pad2 (month d))") auto
  from ab ce yy show ?thesis by (simp add: strftime_dmY_def)
qed

text \<open>
  Claim C2 holds for a token of the digits \<open>0\<close> to \<open>9\<close> and for a token that
  \<open>str.isdigit\<close> rejects (the lemmas above), but not for every line: \<open>isdigit\<close>
  accepts the superscript two (U+00B2), \<open>int\<close> does not. For the line \<open>exchange\<close>,
  a blank and that character, \<open>int\<close> raises \<open>ValueError\<close>, which the \<open>try\<close> statement does
  not catch: no table is made and the exception leaves \<open>handle_messages\<close>, in every
  state and with every provider.
\<close>

theorem superscript_digit_raises:
  "handle_message e joins ws (''exchange '' @ [char_of (178 :: nat)]) s = (Some ValueError, s)"
proof -
  have args: "py_split (''exchange '' @ [char_of (178 :: nat)]) = [''exchange'', [char_of (178 :: nat)]]"
    by (simp add: py_split_def isspace_def)
  have days: "requested_days [''exchange'', [char_of (178 :: nat)]] = Inl ValueError"
    by (simp add: requested_days_def py_isdigit_def is_digit_def is_decimal_def py_int_def)
  from args days show ?thesis
    by (simp add: handle_message_def exchange_command_def show_exchange_def)
qed

end
